theory Spec2Isabelle
  imports Complex_Main
begin

section \<open>Errors\<close>

text \<open>
  The Python exceptions that the modelled functions of \<^verbatim>\<open>bundle_adjust/ba_utils.py\<close>
  can raise. A function that may raise returns \<open>error + 'a\<close>, with \<open>Inl\<close> for the exception.
\<close>

datatype error =
  IndexError | ValueError | ZeroDivisionError | AssertionError | FileNotFoundError | OverflowError

section \<open>Connectivity graph (\<^verbatim>\<open>build_connectivity_graph\<close>)\<close>

subsection \<open>The observation matrix\<close>

text \<open>
  An entry of the observation matrix \<open>C\<close> is a float; the function only asks whether it is
  NaN. The matrix is the list of its rows.
\<close>

datatype cell = NaN | Num real

fun isnan :: "cell \<Rightarrow> bool" where
  "isnan NaN = True"
| "isnan (Num _) = False"

type_synonym matrix = "cell list list"

text \<open>A two-dimensional array: every row has the same number of columns.\<close>

definition is_matrix :: "matrix \<Rightarrow> nat \<Rightarrow> bool" where
  "is_matrix C n_tracks = list_all (\<lambda>row. length row = n_tracks) C"

text \<open>
  An observation matrix of shape \<open>(2 * n_cameras, n_tracks)\<close>: the rows \<open>2i\<close> and \<open>2i+1\<close>
  hold the \<open>x\<close> and the \<open>y\<close> coordinate of the observations of camera \<open>i\<close>, and a track that
  the camera does not observe has NaN in both.
\<close>

definition is_observation_matrix :: "matrix \<Rightarrow> nat \<Rightarrow> bool" where
  "is_observation_matrix C n_tracks =
     (is_matrix C n_tracks \<and> even (length C)
      \<and> list_all (\<lambda>i. list_all (\<lambda>t. isnan (C ! (2 * i) ! t) = isnan (C ! (2 * i + 1) ! t))
                              [0 ..< n_tracks])
           [0 ..< length C div 2])"

subsection \<open>Step (1): the adjacency matrix\<close>

text \<open>
  \<^verbatim>\<open>np.sum(1*np.logical_and(1*~np.isnan(C[2*im1, :]), 1*~np.isnan(C[2*im2, :])))\<close>:
  the number of columns in which both rows are not NaN.
\<close>

definition n_matches :: "cell list \<Rightarrow> cell list \<Rightarrow> nat" where
  "n_matches row1 row2 =
     sum_list (map (\<lambda>(a, b). if \<not> isnan a \<and> \<not> isnan b then 1 else 0) (zip row1 row2))"

text \<open>
  The state of the loops: the matrix \<open>A\<close> (the program stores the counts as floats in an
  array of zeros; the model keeps them as natural numbers) and the two lists.
\<close>

record adj_state =
  st_A :: "nat list list"
  st_n_correspondences_filt :: "nat list"
  st_tmp_pairs :: "(nat \<times> nat) list"

text \<open>\<^verbatim>\<open>A[i,j] = v\<close> on a list of rows.\<close>

definition set_entry :: "nat list list \<Rightarrow> nat \<Rightarrow> nat \<Rightarrow> nat \<Rightarrow> nat list list" where
  "set_entry M i j v = M[i := (M ! i)[j := v]]"

text \<open>The body of the inner loop, for one pair \<open>(im1, im2)\<close>.\<close>

definition pair_step :: "matrix \<Rightarrow> nat \<Rightarrow> nat \<Rightarrow> adj_state \<Rightarrow> adj_state" where
  "pair_step C im1 im2 st =
     (let n = n_matches (C ! (2 * im1)) (C ! (2 * im2)) in
      \<lparr> st_A = set_entry (set_entry (st_A st) im1 im2 n) im2 im1 n,
        st_n_correspondences_filt = st_n_correspondences_filt st @ [n],
        st_tmp_pairs = st_tmp_pairs st @ [(im1, im2)] \<rparr>)"

text \<open>\<^verbatim>\<open>n_cam = int(C.shape[0]/2)\<close>\<close>

definition n_cam_of :: "matrix \<Rightarrow> nat" where
  "n_cam_of C = length C div 2"

definition init_state :: "nat \<Rightarrow> adj_state" where
  "init_state n_cam =
     \<lparr> st_A = replicate n_cam (replicate n_cam 0),
       st_n_correspondences_filt = [],
       st_tmp_pairs = [] \<rparr>"

text \<open>
  \<^verbatim>\<open>for im1 in range(n_cam): for im2 in range(im1+1, n_cam): ...\<close>
  Row \<open>2 * im1\<close> exists for every \<open>im1 < n_cam\<close>, so no read is out of range.
\<close>

definition build_adjacency :: "matrix \<Rightarrow> adj_state" where
  "build_adjacency C =
     (let n_cam = n_cam_of C in
      fold (\<lambda>im1 st. fold (pair_step C im1) [Suc im1 ..< n_cam] st)
           [0 ..< n_cam] (init_state n_cam))"

subsection \<open>Step (2): the threshold on the number of matches\<close>

definition filter_step ::
  "int \<Rightarrow> adj_state \<Rightarrow> nat \<Rightarrow> (nat \<times> nat) list \<times> nat list \<Rightarrow> (nat \<times> nat) list \<times> nat list" where
  "filter_step min_matches st i acc =
     (if int (st_n_correspondences_filt st ! i) > min_matches
      then (fst acc @ [st_tmp_pairs st ! i], snd acc @ [st_n_correspondences_filt st ! i])
      else acc)"

text \<open>\<^verbatim>\<open>for i in range(len(tmp_pairs)): if n_correspondences_filt[i] > min_matches: ...\<close>\<close>

definition filter_edges :: "int \<Rightarrow> adj_state \<Rightarrow> (nat \<times> nat) list \<times> nat list" where
  "filter_edges min_matches st =
     fold (filter_step min_matches st) [0 ..< length (st_tmp_pairs st)] ([], [])"

subsection \<open>Step (3): the graph and its connected components\<close>

text \<open>
  The graph of the \<^verbatim>\<open>networkx\<close> library, as far as the function uses it: the nodes in the
  order of their insertion and the edges. \<^verbatim>\<open>add_edge\<close> inserts an endpoint that is not yet a
  node; nothing else adds a node.
\<close>

record graph =
  g_nodes :: "nat list"
  g_edges :: "(nat \<times> nat) list"

definition empty_graph :: graph where
  "empty_graph = \<lparr> g_nodes = [], g_edges = [] \<rparr>"

definition add_node :: "nat \<Rightarrow> graph \<Rightarrow> graph" where
  "add_node v G = (if v \<in> set (g_nodes G) then G else G\<lparr> g_nodes := g_nodes G @ [v] \<rparr>)"

definition add_edge :: "nat \<Rightarrow> nat \<Rightarrow> graph \<Rightarrow> graph" where
  "add_edge u v G = (let G' = add_node v (add_node u G) in G'\<lparr> g_edges := g_edges G' @ [(u, v)] \<rparr>)"

definition neighbors :: "graph \<Rightarrow> nat \<Rightarrow> nat list" where
  "neighbors G v =
     map snd (filter (\<lambda>e. fst e = v) (g_edges G)) @ map fst (filter (\<lambda>e. snd e = v) (g_edges G))"

text \<open>
  The breadth-first search of \<^verbatim>\<open>networkx.connected_components\<close>: one level adds the
  neighbours of the nodes seen so far. A level that adds nothing ends the search, and every
  other level adds a node, so as many levels as the graph has nodes are enough
  (lemma \<open>plain_bfs_reachable\<close> below).
\<close>

definition bfs_level :: "graph \<Rightarrow> nat list \<Rightarrow> nat list" where
  "bfs_level G seen =
     fold (\<lambda>v acc. if v \<in> set acc then acc else acc @ [v]) (concat (map (neighbors G) seen)) seen"

definition plain_bfs :: "graph \<Rightarrow> nat \<Rightarrow> nat list" where
  "plain_bfs G source = (bfs_level G ^^ length (g_nodes G)) [source]"

text \<open>
  \<^verbatim>\<open>for v in G: if v not in seen: c = _plain_bfs(G, v); seen.update(c); yield c\<close>:
  the components come in the order in which their first node was inserted.
\<close>

fun components_from :: "graph \<Rightarrow> nat list \<Rightarrow> nat list \<Rightarrow> nat list list" where
  "components_from G seen [] = []"
| "components_from G seen (v # vs) =
     (if v \<in> set seen then components_from G seen vs
      else (let c = plain_bfs G v in c # components_from G (seen @ c) vs))"

definition connected_components :: "graph \<Rightarrow> nat list list" where
  "connected_components G = components_from G [] (g_nodes G)"

record conn_result =
  res_G :: graph
  res_n_cc :: nat
  res_pairs_to_draw :: "(nat \<times> nat) list"
  res_matches_per_pair :: "nat list"
  res_missing_cams :: "nat list"

text \<open>\<^verbatim>\<open>for edge in pairs_to_draw: G.add_edge(edge[0], edge[1])\<close>\<close>

definition graph_of_pairs :: "(nat \<times> nat) list \<Rightarrow> graph" where
  "graph_of_pairs pairs_to_draw = fold (\<lambda>edge G. add_edge (fst edge) (snd edge) G) pairs_to_draw empty_graph"

text \<open>
  The whole function. \<^verbatim>\<open>G_cc[0]\<close> raises IndexError on an empty list of components, and
  the report printed when \<open>verbose\<close> holds takes \<^verbatim>\<open>min(matches_per_pair)\<close>, which raises
  ValueError on an empty list. The missing cameras are a Python set turned into a list; the
  model lists them in ascending order.
\<close>

definition build_connectivity_graph :: "matrix \<Rightarrow> int \<Rightarrow> bool \<Rightarrow> error + conn_result" where
  "build_connectivity_graph C min_matches verbose =
     (let n_cam = n_cam_of C;
          st = build_adjacency C;
          sel = filter_edges min_matches st;
          pairs_to_draw = fst sel;
          matches_per_pair = snd sel;
          G = graph_of_pairs pairs_to_draw;
          G_cc = connected_components G;
          n_cc = length G_cc
      in case G_cc of
           [] \<Rightarrow> Inl IndexError
         | c0 # _ \<Rightarrow>
            (let missing_cams = filter (\<lambda>c. c \<notin> set c0) [0 ..< n_cam] in
             if verbose \<and> matches_per_pair = [] then Inl ValueError
             else Inr \<lparr> res_G = G, res_n_cc = n_cc, res_pairs_to_draw = pairs_to_draw,
                        res_matches_per_pair = matches_per_pair,
                        res_missing_cams = missing_cams \<rparr>))"

subsection \<open>Auxiliary notions for the proofs\<close>

text \<open>The pairs \<open>(im1, im2)\<close> in the order in which the two loops of step (1) visit them.\<close>

definition all_pairs :: "nat \<Rightarrow> (nat \<times> nat) list" where
  "all_pairs n = concat (map (\<lambda>i. map (Pair i) [Suc i ..< n]) [0 ..< n])"

definition square :: "nat \<Rightarrow> nat list list \<Rightarrow> bool" where
  "square n M \<longleftrightarrow> length M = n \<and> (\<forall>row \<in> set M. length row = n)"

text \<open>The count that the loop body computes for the pair \<open>(i, j)\<close>.\<close>

definition shared :: "matrix \<Rightarrow> nat \<Rightarrow> nat \<Rightarrow> nat" where
  "shared C i j = n_matches (C ! (2 * i)) (C ! (2 * j))"

text \<open>The undirected edge relation of a list of pairs.\<close>

definition edge_rel :: "(nat \<times> nat) list \<Rightarrow> (nat \<times> nat) set" where
  "edge_rel ps = {(a, b). (a, b) \<in> set ps \<or> (b, a) \<in> set ps}"

subsection \<open>The specification's wording, for comparison\<close>

text \<open>
  The number of tracks that cameras \<open>i\<close> and \<open>j\<close> observe jointly as the specification
  words it: the columns in which both rows of camera \<open>i\<close> and both rows of camera \<open>j\<close> are
  not NaN.
\<close>

definition spec_joint_tracks :: "matrix \<Rightarrow> nat \<Rightarrow> nat \<Rightarrow> nat \<Rightarrow> nat" where
  "spec_joint_tracks C n_tracks i j =
     length (filter (\<lambda>t. \<not> isnan (C ! (2 * i) ! t) \<and> \<not> isnan (C ! (2 * i + 1) ! t)
                        \<and> \<not> isnan (C ! (2 * j) ! t) \<and> \<not> isnan (C ! (2 * j + 1) ! t))
               [0 ..< n_tracks])"

text \<open>The largest component of a list of components (the first one of maximal size).\<close>

definition spec_largest_component :: "nat list list \<Rightarrow> nat list" where
  "spec_largest_component comps =
     fold (\<lambda>c best. if length best < length c then c else best) comps []"

subsection \<open>Concrete observation matrices\<close>

text \<open>
  Two cameras and four tracks: tracks 0, 2 and 3 are observed by both cameras, track 1 by
  camera 0 only.
\<close>

definition C_e2e :: matrix where
  "C_e2e = [[Num 1, Num 1, Num 1, Num 1], [Num 1, Num 1, Num 1, Num 1],
            [Num 1, NaN, Num 1, Num 1], [Num 1, NaN, Num 1, Num 1]]"

text \<open>Five cameras: track 0 is seen by cameras 0 and 1, track 1 by cameras 2, 3 and 4.\<close>

definition C_two_groups :: matrix where
  "C_two_groups =
     [[Num 1, NaN], [Num 1, NaN], [Num 1, NaN], [Num 1, NaN],
      [NaN, Num 1], [NaN, Num 1], [NaN, Num 1], [NaN, Num 1], [NaN, Num 1], [NaN, Num 1]]"

definition r_two_groups :: conn_result where
  "r_two_groups =
     \<lparr> res_G = \<lparr> g_nodes = [0, 1, 2, 3, 4], g_edges = [(0, 1), (2, 3), (2, 4), (3, 4)] \<rparr>,
       res_n_cc = 2, res_pairs_to_draw = [(0, 1), (2, 3), (2, 4), (3, 4)],
       res_matches_per_pair = [1, 1, 1, 1], res_missing_cams = [2, 3, 4] \<rparr>"

text \<open>Two cameras that share no track.\<close>

definition C_disjoint :: matrix where
  "C_disjoint = [[Num 1, NaN], [Num 1, NaN], [NaN, Num 1], [NaN, Num 1]]"

section \<open>Rasters (\<^verbatim>\<open>save_geotiff\<close>, \<^verbatim>\<open>run_plyflatten\<close>)\<close>

text \<open>
  In \<^verbatim>\<open>save_geotiff\<close> the floats are modelled by real numbers and the arithmetic is exact.
  The grid of \<^verbatim>\<open>run_plyflatten\<close> is computed in double precision, with the rounding of
  every operation written out.
\<close>

subsection \<open>Paths (\<^verbatim>\<open>os.path\<close> on POSIX)\<close>

text \<open>The text after the last slash.\<close>

definition basename :: "string \<Rightarrow> string" where
  "basename p = rev (takeWhile (\<lambda>c. c \<noteq> CHR ''/'') (rev p))"

text \<open>
  The text up to the last slash; the slashes at its end are removed unless it consists of
  slashes only.
\<close>

definition dirname :: "string \<Rightarrow> string" where
  "dirname p =
     (let head = rev (dropWhile (\<lambda>c. c \<noteq> CHR ''/'') (rev p)) in
      if head \<noteq> [] \<and> \<not> list_all (\<lambda>c. c = CHR ''/'') head
      then rev (dropWhile (\<lambda>c. c = CHR ''/'') (rev head))
      else head)"

definition path_join :: "string \<Rightarrow> string \<Rightarrow> string" where
  "path_join a b =
     (if b \<noteq> [] \<and> hd b = CHR ''/'' then b
      else if a = [] \<or> last a = CHR ''/'' then a @ b
      else a @ ''/'' @ b)"

subsection \<open>\<^verbatim>\<open>save_geotiff\<close>\<close>

text \<open>
  The affine transform \<^verbatim>\<open>rasterio.transform.from_origin(west, north, xsize, ysize)\<close>, which is
  \<^verbatim>\<open>Affine.translation(west, north) * Affine.scale(xsize, -ysize)\<close>.
\<close>

record affine =
  af_a :: real
  af_b :: real
  af_c :: real
  af_d :: real
  af_e :: real
  af_f :: real

definition from_origin :: "real \<Rightarrow> real \<Rightarrow> real \<Rightarrow> real \<Rightarrow> affine" where
  "from_origin west north xsize ysize =
     \<lparr> af_a = xsize, af_b = 0, af_c = west, af_d = 0, af_e = - ysize, af_f = north \<rparr>"

text \<open>A two-dimensional array with its shape \<open>(h, w)\<close>.\<close>

record image =
  im_height :: nat
  im_width :: nat
  im_data :: "real list list"

record geotiff_profile =
  gp_driver :: string
  gp_count :: nat
  gp_width :: nat
  gp_height :: nat
  gp_dtype :: string
  gp_crs :: string
  gp_transform :: affine

text \<open>What \<^verbatim>\<open>rasterio.open(filename, 'w', **profile)\<close> and \<^verbatim>\<open>dst.write\<close> leave on disk.\<close>

record geotiff_file =
  gf_filename :: string
  gf_profile :: geotiff_profile
  gf_bands :: "real list list list"

text \<open>The parameter \<open>epsg_code\<close> is accepted and never read.\<close>

definition save_geotiff :: "string \<Rightarrow> image \<Rightarrow> int \<Rightarrow> real \<Rightarrow> real \<Rightarrow> real \<Rightarrow> geotiff_file" where
  "save_geotiff filename input_im epsg_code x y r =
     (let h = im_height input_im;
          w = im_width input_im;
          profile = \<lparr> gp_driver = ''GTiff'',
                      gp_count = 1,
                      gp_width = w,
                      gp_height = h,
                      gp_dtype = ''float64'',
                      gp_crs = ''epsg:32614'',
                      gp_transform = from_origin (x - r / 2) (y + r / 2) r r \<rparr>
      in \<lparr> gf_filename = filename, gf_profile = profile, gf_bands = [im_data input_im] \<rparr>)"

subsection \<open>Double precision\<close>

text \<open>
  A finite double is the real number it denotes; the sign of zero is not represented (no
  operation below depends on it). \<open>pow2 e\<close> is \<open>2\<close> to the power \<open>e\<close>, and \<open>expo x\<close> is the
  binary exponent of \<open>x \<noteq> 0\<close>: the integer \<open>e\<close> with \<open>2^e \<le> |x| < 2^(e+1)\<close>.
\<close>

definition pow2 :: "int \<Rightarrow> real" where
  "pow2 e = (if 0 \<le> e then 2 ^ nat e else 1 / 2 ^ nat (- e))"

function expo :: "real \<Rightarrow> int" where
  "expo x =
     (if x = 0 then 0
      else if 2 \<le> \<bar>x\<bar> then expo (x / 2) + 1
      else if \<bar>x\<bar> < 1 then expo (2 * x) - 1
      else 0)"
  by pat_completeness auto
termination
proof (relation "measure (\<lambda>x. if x = 0 then 0 else nat \<bar>\<lfloor>log 2 \<bar>x\<bar>\<rfloor>\<bar>)")
  show "wf (measure (\<lambda>x::real. if x = 0 then 0 else nat \<bar>\<lfloor>log 2 \<bar>x\<bar>\<rfloor>\<bar>))"
    by simp
next
  fix x :: real
  assume x: "x \<noteq> 0" and big: "2 \<le> \<bar>x\<bar>"
  define n where "n = \<lfloor>log 2 \<bar>x\<bar>\<rfloor>"
  have "log 2 \<bar>x / 2\<bar> = log 2 \<bar>x\<bar> - 1"
    using x by (simp add: log_divide)
  then have half: "\<lfloor>log 2 \<bar>x / 2\<bar>\<rfloor> = n - 1"
    by (simp add: n_def)
  have "1 \<le> log 2 \<bar>x\<bar>"
    using big by (simp add: le_log_iff)
  then have "1 \<le> n"
    unfolding n_def by (simp only: le_floor_iff)
  then have "nat \<bar>n - 1\<bar> < nat \<bar>n\<bar>"
    by linarith
  then have "nat \<bar>\<lfloor>log 2 \<bar>x / 2\<bar>\<rfloor>\<bar> < nat \<bar>\<lfloor>log 2 \<bar>x\<bar>\<rfloor>\<bar>"
    by (simp only: half n_def [symmetric])
  with x show "(x / 2, x) \<in> measure (\<lambda>x. if x = 0 then 0 else nat \<bar>\<lfloor>log 2 \<bar>x\<bar>\<rfloor>\<bar>)"
    by simp
next
  fix x :: real
  assume x: "x \<noteq> 0" and small: "\<bar>x\<bar> < 1"
  define n where "n = \<lfloor>log 2 \<bar>x\<bar>\<rfloor>"
  have "log 2 \<bar>2 * x\<bar> = log 2 \<bar>x\<bar> + 1"
    using x by (simp add: abs_mult log_mult)
  then have dbl: "\<lfloor>log 2 \<bar>2 * x\<bar>\<rfloor> = n + 1"
    by (simp add: n_def)
  have "log 2 \<bar>x\<bar> < 0"
    using small x by simp
  then have "n < 0"
    unfolding n_def by (simp only: floor_less_zero)
  then have "nat \<bar>n + 1\<bar> < nat \<bar>n\<bar>"
    by linarith
  then have "nat \<bar>\<lfloor>log 2 \<bar>2 * x\<bar>\<rfloor>\<bar> < nat \<bar>\<lfloor>log 2 \<bar>x\<bar>\<rfloor>\<bar>"
    by (simp only: dbl n_def [symmetric])
  with x show "(2 * x, x) \<in> measure (\<lambda>x. if x = 0 then 0 else nat \<bar>\<lfloor>log 2 \<bar>x\<bar>\<rfloor>\<bar>)"
    by simp
qed

declare expo.simps [simp del]

text \<open>The nearest integer, the even one of two that are equally near.\<close>

definition round_half_even :: "real \<Rightarrow> int" where
  "round_half_even m =
     (let f = \<lfloor>m\<rfloor>; d = m - of_int f
      in if d < 1 / 2 then f
         else if 1 / 2 < d then f + 1
         else if even f then f else f + 1)"

text \<open>The result of an operation: a finite double or an infinity.\<close>

datatype npfloat = Fin real | PInf | NInf

text \<open>
  The rounding of IEEE 754 double precision (to nearest, ties to even): the exact result
  \<open>x\<close> is rounded to a multiple of the spacing \<open>2^(e-52)\<close> of the doubles of its exponent
  \<open>e\<close>, of \<open>2^(-1074)\<close> in the subnormal range; a result of magnitude \<open>2^1024\<close> or more
  (of exponent 1024 or more) is an infinity.
\<close>

definition round_double :: "real \<Rightarrow> npfloat" where
  "round_double x =
     (if x = 0 then Fin 0
      else (let e = max (expo x) (- 1022);
                ulp = pow2 (e - 52);
                r = of_int (round_half_even (x / ulp)) * ulp
            in if 1024 \<le> expo r then (if 0 < r then PInf else NInf)
               else Fin r))"


text \<open>
  The operations that the grid needs. The second operand of a division or a product is
  the resolution, a finite double other than zero.
\<close>

fun fdiv :: "npfloat \<Rightarrow> real \<Rightarrow> npfloat" where
  "fdiv (Fin a) r = round_double (a / r)"
| "fdiv PInf r = (if 0 < r then PInf else NInf)"
| "fdiv NInf r = (if 0 < r then NInf else PInf)"

fun fmul :: "npfloat \<Rightarrow> real \<Rightarrow> npfloat" where
  "fmul (Fin a) r = round_double (a * r)"
| "fmul PInf r = (if 0 < r then PInf else NInf)"
| "fmul NInf r = (if 0 < r then NInf else PInf)"

definition fsub :: "real \<Rightarrow> real \<Rightarrow> npfloat" where
  "fsub a b = round_double (a - b)"

text \<open>\<^verbatim>\<open>x + 1\<close>\<close>

fun fadd1 :: "npfloat \<Rightarrow> npfloat" where
  "fadd1 (Fin a) = round_double (a + 1)"
| "fadd1 PInf = PInf"
| "fadd1 NInf = NInf"

text \<open>
  \<^verbatim>\<open>np.floor\<close> and \<^verbatim>\<open>np.ceil\<close> return floats, without rounding: the floor of a double is a
  double.
\<close>

fun np_floor :: "npfloat \<Rightarrow> npfloat" where
  "np_floor (Fin a) = Fin (of_int \<lfloor>a\<rfloor>)"
| "np_floor PInf = PInf"
| "np_floor NInf = NInf"

fun np_ceil :: "npfloat \<Rightarrow> npfloat" where
  "np_ceil (Fin a) = Fin (of_int \<lceil>a\<rceil>)"
| "np_ceil PInf = PInf"
| "np_ceil NInf = NInf"

text \<open>
  \<^verbatim>\<open>int(x)\<close> truncates a finite float towards zero and raises OverflowError for an
  infinity.
\<close>

fun py_int :: "npfloat \<Rightarrow> error + int" where
  "py_int (Fin a) = Inr (if 0 \<le> a then \<lfloor>a\<rfloor> else \<lceil>a\<rceil>)"
| "py_int PInf = Inl OverflowError"
| "py_int NInf = Inl OverflowError"

subsection \<open>\<^verbatim>\<open>run_plyflatten\<close>: the grid\<close>

text \<open>The bounding box holds finite doubles.\<close>

record utm_bbx =
  bb_xmin :: real
  bb_xmax :: real
  bb_ymin :: real
  bb_ymax :: real

record roi =
  roi_xoff :: npfloat
  roi_yoff :: npfloat
  roi_xsize :: int
  roi_ysize :: int

text \<open>
  The first lines of \<^verbatim>\<open>run_plyflatten\<close> (``compute roi from utm bounding box''), in the
  order of the program: \<open>xoff\<close>, \<open>xsize\<close>, \<open>yoff\<close>, \<open>ysize\<close>. The numbers are Python floats, so
  a division by a zero resolution raises ZeroDivisionError.
\<close>

definition compute_roi :: "utm_bbx \<Rightarrow> real \<Rightarrow> error + roi" where
  "compute_roi bbx resolution =
     (if resolution = 0 then Inl ZeroDivisionError
      else
        (let xoff = fmul (np_floor (fdiv (Fin (bb_xmin bbx)) resolution)) resolution
         in case py_int (fadd1 (np_floor (fdiv (fsub (bb_xmax bbx) (bb_xmin bbx)) resolution))) of
              Inl e \<Rightarrow> Inl e
            | Inr xsize \<Rightarrow>
               (let yoff = fmul (np_ceil (fdiv (Fin (bb_ymax bbx)) resolution)) resolution
                in case py_int (fadd1 (np_floor (fdiv (fsub (bb_ymax bbx) (bb_ymin bbx)) resolution))) of
                     Inl e \<Rightarrow> Inl e
                   | Inr ysize \<Rightarrow>
                      Inr \<lparr> roi_xoff = xoff, roi_yoff = yoff,
                            roi_xsize = xsize, roi_ysize = ysize \<rparr>)))"


subsection \<open>\<^verbatim>\<open>run_plyflatten\<close>: the layers\<close>

text \<open>
  The raster that the aggregation backend returns has the shape \<open>(height, width, layers)\<close>;
  a layer \<^verbatim>\<open>raster[:, :, k]\<close> is kept abstract.
\<close>

record 'l raster =
  rs_height :: nat
  rs_width :: nat
  rs_dtype :: string
  rs_layers :: "'l list"

text \<open>
  The profile of the backend, of which the function overwrites five entries.
\<close>

record 'p dsm_profile =
  dp_dtype :: string
  dp_height :: nat
  dp_width :: nat
  dp_count :: nat
  dp_driver :: string
  dp_backend :: 'p

record ('l, 'p) written =
  wr_path :: string
  wr_profile :: "'p dsm_profile"
  wr_band :: 'l

text \<open>
  The part of \<^verbatim>\<open>run_plyflatten\<close> after the call of the backend. Parameters stand for what is
  not in this file: \<open>apply_mask_to_raster\<close> and the mask (\<open>msk\<close>). The result is the list of the files
  written, in order, and the exception that ended the run, if any.
  \<^verbatim>\<open>os.makedirs('')\<close> raises FileNotFoundError; \<^verbatim>\<open>raster[:, :, k]\<close> raises IndexError for
  \<open>k\<close> out of range.
\<close>

definition write_layers ::
  "('l \<Rightarrow> 'm \<Rightarrow> 'l) \<Rightarrow> 'l raster \<Rightarrow> 'p \<Rightarrow> 'm \<Rightarrow> string \<Rightarrow> bool \<Rightarrow> bool
   \<Rightarrow> ('l, 'p) written list \<times> error option" where
  "write_layers apply_mask_to_raster raster backend_profile msk output_file std cnt =
     (let profile = \<lparr> dp_dtype = rs_dtype raster, dp_height = rs_height raster,
                      dp_width = rs_width raster, dp_count = 1, dp_driver = ''GTiff'',
                      dp_backend = backend_profile \<rparr>;
          layers = rs_layers raster
      in if dirname output_file = [] then ([], Some FileNotFoundError)
         else if layers = [] then ([], Some IndexError)
         else
           (let dsm = \<lparr> wr_path = output_file, wr_profile = profile,
                        wr_band = apply_mask_to_raster (layers ! 0) msk \<rparr>
            in if \<not> std then ([dsm], None)
               else
                 (let odd_layers = (length layers mod 2 = 1);
                      cnt_path = path_join (dirname output_file) (''cnt/'' @ basename output_file);
                      cnt_files =
                        (if odd_layers \<and> cnt
                         then [\<lparr> wr_path = cnt_path, wr_profile = profile,
                                  wr_band = apply_mask_to_raster (last layers) msk \<rparr>]
                         else []);
                      layers' = (if odd_layers then butlast layers else layers);
                      std_path = path_join (dirname output_file) (''std/'' @ basename output_file);
                      n = length layers'
                  in if n mod 2 \<noteq> 0 then (dsm # cnt_files, Some AssertionError)
                     else if n div 2 \<ge> n then (dsm # cnt_files, Some IndexError)
                     else (dsm # cnt_files @
                             [\<lparr> wr_path = std_path, wr_profile = profile,
                                wr_band = apply_mask_to_raster (layers' ! (n div 2)) msk \<rparr>],
                           None))))"

text \<open>
  The whole function: \<open>plyflatten_from_plyfiles_list\<close> is the backend, \<open>np_ones\<close> the mask of
  ones and \<open>get_binary_mask\<close> the mask of the area of interest.
\<close>

definition run_plyflatten ::
  "('f list \<Rightarrow> real \<Rightarrow> roi \<Rightarrow> bool \<Rightarrow> 'l raster \<times> 'p) \<Rightarrow> ('l \<Rightarrow> 'm \<Rightarrow> 'l)
   \<Rightarrow> (nat \<Rightarrow> nat \<Rightarrow> 'm) \<Rightarrow> (utm_bbx \<Rightarrow> real \<Rightarrow> 'a \<Rightarrow> 'm)
   \<Rightarrow> 'f list \<Rightarrow> real \<Rightarrow> utm_bbx \<Rightarrow> string \<Rightarrow> 'a option \<Rightarrow> bool \<Rightarrow> bool
   \<Rightarrow> ('l, 'p) written list \<times> error option" where
  "run_plyflatten plyflatten_from_plyfiles_list apply_mask_to_raster np_ones get_binary_mask
       ply_list resolution bbx output_file aoi_lonlat std cnt =
     (case compute_roi bbx resolution of
        Inl e \<Rightarrow> ([], Some e)
      | Inr roi \<Rightarrow>
         (let res = plyflatten_from_plyfiles_list ply_list resolution roi std;
              raster = fst res;
              msk = (case aoi_lonlat of
                        None \<Rightarrow> np_ones (rs_height raster) (rs_width raster)
                      | Some aoi \<Rightarrow> get_binary_mask bbx resolution aoi)
          in write_layers apply_mask_to_raster raster (snd res) msk output_file std cnt))"

subsection \<open>Concrete inputs\<close>


text \<open>
  The double that the literal \<^verbatim>\<open>0.3\<close> denotes, and the bounding box from \<^verbatim>\<open>0.3\<close> to \<^verbatim>\<open>9.6\<close>:
  the double of \<^verbatim>\<open>9.6\<close> is 32 times that of \<^verbatim>\<open>0.3\<close>.
\<close>

definition d03 :: real where
  "d03 = 5404319552844595 / 18014398509481984"


section \<open>Text files (\<^verbatim>\<open>get_predefined_pairs\<close>, \<^verbatim>\<open>read_point_cloud_ply\<close>)\<close>

text \<open>
  A file is the text that Python reads from it. A character is a Unicode code point below
  256 (the Latin-1 range), which is what the type \<open>char\<close> holds; text with other characters
  is outside the model. In that range \<^verbatim>\<open>str.isspace\<close> accepts the codes 9 to 13, 28 to 32,
  133 and 160, and \<^verbatim>\<open>str.isdigit\<close> accepts \<open>0\<close> to \<open>9\<close> and the superscript digits (codes
  178, 179 and 185), which \<^verbatim>\<open>int\<close> rejects. The class \<^verbatim>\<open>\d\<close> of a regular expression holds
  \<open>0\<close> to \<open>9\<close> only.
\<close>

subsection \<open>Strings\<close>

text \<open>\<^verbatim>\<open>c.isspace()\<close>\<close>

definition isspace :: "char \<Rightarrow> bool" where
  "isspace c = (c \<in> set [CHR 0x20, CHR 0x09, CHR 0x0A, CHR 0x0B, CHR 0x0C, CHR 0x0D,
                         CHR 0x1C, CHR 0x1D, CHR 0x1E, CHR 0x1F, CHR 0x85, CHR 0xA0])"

text \<open>The decimal digits \<open>0\<close> to \<open>9\<close>.\<close>

definition is_digit :: "char \<Rightarrow> bool" where
  "is_digit c = (c \<in> set ''0123456789'')"

text \<open>\<^verbatim>\<open>c.isdigit()\<close>: the decimal digits and the superscripts two, three and one.\<close>

definition char_isdigit :: "char \<Rightarrow> bool" where
  "char_isdigit c = (is_digit c \<or> c \<in> set [CHR 0xB2, CHR 0xB3, CHR 0xB9])"

text \<open>\<^verbatim>\<open>f.readline()\<close>: the text up to and with the next newline, and what is left of the file.\<close>

definition readline :: "string \<Rightarrow> string \<times> string" where
  "readline f =
     (let line = takeWhile (\<lambda>c. c \<noteq> CHR ''\<newline>'') f;
          rest = dropWhile (\<lambda>c. c \<noteq> CHR ''\<newline>'') f
      in case rest of
           [] \<Rightarrow> (line, [])
         | c # cs \<Rightarrow> (line @ [c], cs))"

text \<open>\<^verbatim>\<open>s.split(sep)\<close> for a separator of one character: the empty string gives \<open>['']\<close>.\<close>

fun split_on :: "char \<Rightarrow> string \<Rightarrow> string list" where
  "split_on sep [] = [[]]"
| "split_on sep (c # cs) =
     (if c = sep then [] # split_on sep cs
      else (case split_on sep cs of
              w # ws \<Rightarrow> (c # w) # ws
            | [] \<Rightarrow> [[c]]))"

text \<open>\<^verbatim>\<open>s.split()\<close>: the maximal runs of characters that are not white space.\<close>

fun split_ws_from :: "string \<Rightarrow> string \<Rightarrow> string list" where
  "split_ws_from w [] = (if w = [] then [] else [w])"
| "split_ws_from w (c # cs) =
     (if isspace c then (if w = [] then split_ws_from [] cs else w # split_ws_from [] cs)
      else split_ws_from (w @ [c]) cs)"

definition split_ws :: "string \<Rightarrow> string list" where
  "split_ws s = split_ws_from [] s"

text \<open>\<^verbatim>\<open>s.strip()\<close>\<close>

definition strip :: "string \<Rightarrow> string" where
  "strip s = rev (dropWhile isspace (rev (dropWhile isspace s)))"

text \<open>\<^verbatim>\<open>s.isdigit()\<close>\<close>

definition isdigit :: "string \<Rightarrow> bool" where
  "isdigit s = (s \<noteq> [] \<and> list_all char_isdigit s)"

definition digit_val :: "char \<Rightarrow> nat" where
  "digit_val c = of_char c - of_char CHR ''0''"

text \<open>The number that a string of digits denotes.\<close>

definition digits_val :: "string \<Rightarrow> nat" where
  "digits_val s = foldl (\<lambda>n c. 10 * n + digit_val c) 0 s"

text \<open>
  \<^verbatim>\<open>int(s)\<close> for a string without sign, white space or underscore. It raises ValueError
  unless \<open>s\<close> is a non-empty string of decimal digits, and also when \<open>s\<close> has more digits
  than the limit \<^verbatim>\<open>sys.int_max_str_digits\<close> of the interpreter allows: 4300 by default from
  Python 3.11 on, and 0 (or an earlier Python) for no limit. A limit is 0 or at least 640.
\<close>

definition py_int_of_digits :: "nat \<Rightarrow> string \<Rightarrow> error + int" where
  "py_int_of_digits int_max_str_digits s =
     (if s = [] \<or> \<not> list_all is_digit s then Inl ValueError
      else if int_max_str_digits \<noteq> 0 \<and> int_max_str_digits < length s then Inl ValueError
      else Inr (int (digits_val s)))"

text \<open>
  \<^verbatim>\<open>[int(s) for s in tokens]\<close>: the conversions from left to right, up to the first that
  raises.
\<close>

fun ints_of_tokens :: "nat \<Rightarrow> string list \<Rightarrow> error + int list" where
  "ints_of_tokens int_max_str_digits [] = Inr []"
| "ints_of_tokens int_max_str_digits (s # ss) =
     (case py_int_of_digits int_max_str_digits s of
        Inl e \<Rightarrow> Inl e
      | Inr v \<Rightarrow>
         (case ints_of_tokens int_max_str_digits ss of
            Inl e \<Rightarrow> Inl e
          | Inr vs \<Rightarrow> Inr (v # vs)))"

text \<open>\<^verbatim>\<open>xs.index(x)\<close> for an \<open>x\<close> that occurs in \<open>xs\<close>: the first position.\<close>

fun index_of :: "'a list \<Rightarrow> 'a \<Rightarrow> nat" where
  "index_of [] x = 0"
| "index_of (y # ys) x = (if y = x then 0 else Suc (index_of ys x))"

subsection \<open>\<^verbatim>\<open>get_predefined_pairs\<close>\<close>

text \<open>
  The branch for the orders \<open>oracle\<close> and \<open>sift\<close>: \<^verbatim>\<open>for i in range(50)\<close>, with the number
  of rounds left as the second argument (the first is the limit of \<^verbatim>\<open>int\<close>). The list
  \<open>a\<close> is built before it is indexed, so a token that \<^verbatim>\<open>int\<close> rejects raises ValueError;
  then \<^verbatim>\<open>a[0]\<close> and \<^verbatim>\<open>a[1]\<close> raise IndexError when the line holds fewer than two numbers.
\<close>

fun read_index_pairs ::
  "nat \<Rightarrow> nat \<Rightarrow> string \<Rightarrow> (int \<times> int) list \<Rightarrow> error + (int \<times> int) list" where
  "read_index_pairs int_max_str_digits 0 f pairs = Inr pairs"
| "read_index_pairs int_max_str_digits (Suc k) f pairs =
     (case ints_of_tokens int_max_str_digits (filter isdigit (split_ws (fst (readline f)))) of
        Inl e \<Rightarrow> Inl e
      | Inr a \<Rightarrow>
         if length a < 2 then Inl IndexError
         else read_index_pairs int_max_str_digits k (snd (readline f))
                (pairs @ [(a ! 0 - 1, a ! 1 - 1)]))"

text \<open>What the termination of the loop below rests on: a line with a space is not empty.\<close>

lemma readline_shorter: "f \<noteq> [] \<Longrightarrow> length (snd (readline f)) < length f"
  using length_dropWhile_le [of "\<lambda>c. c \<noteq> CHR ''\<newline>''" f]
  by (auto simp: readline_def Let_def split: list.splits)

lemma readline_consumes:
  assumes "\<not> length (split_on sep (fst (readline f))) < 2"
  shows "length (snd (readline f)) < length f"
proof (cases f)
  case Nil
  with assms show ?thesis by (simp add: readline_def Let_def)
next
  case (Cons c cs)
  then show ?thesis by (intro readline_shorter) simp
qed

text \<open>
  The two branches for the other orders: \<^verbatim>\<open>while len(pairs) < 50\<close>. They differ in the
  suffix appended to the two names (none for the site \<open>IARPA\<close>, \<open>.tif\<close> otherwise).
  \<^verbatim>\<open>current_str[1]\<close> raises IndexError when the line holds no space; at the end of the
  file \<^verbatim>\<open>readline\<close> returns the empty string, which is such a line.
\<close>

function read_name_pairs ::
  "string \<Rightarrow> string list \<Rightarrow> string \<Rightarrow> (int \<times> int) list \<Rightarrow> error + (int \<times> int) list" where
  "read_name_pairs suffix myimages_fn f pairs =
     (if length pairs < 50
      then (let current_str = split_on CHR '' '' (fst (readline f))
            in if length current_str < 2 then Inl IndexError
               else (let im1_fn = basename (current_str ! 0 @ suffix);
                         im2_fn = basename (current_str ! 1 @ suffix)
                     in read_name_pairs suffix myimages_fn (snd (readline f))
                          (if im1_fn \<in> set myimages_fn \<and> im2_fn \<in> set myimages_fn
                           then pairs @ [(int (index_of myimages_fn im1_fn),
                                          int (index_of myimages_fn im2_fn))]
                           else pairs)))
      else Inr pairs)"
  by pat_completeness auto
termination
  by (relation "measure (\<lambda>(suffix, myimages_fn, f, pairs). length f)")
     (simp_all add: readline_consumes)

declare read_name_pairs.simps [simp del]

text \<open>
  The whole function; the file \<open>fname\<close> is given by its text \<open>f\<close>, and the first argument
  is the limit of \<^verbatim>\<open>int\<close> that the interpreter runs with.
\<close>

definition get_predefined_pairs ::
  "nat \<Rightarrow> string \<Rightarrow> string \<Rightarrow> string \<Rightarrow> string list \<Rightarrow> error + (int \<times> int) list" where
  "get_predefined_pairs int_max_str_digits f site order myimages =
     (if order \<in> set [''oracle'', ''sift''] then read_index_pairs int_max_str_digits 50 f []
      else (let myimages_fn = map basename myimages
            in if site = ''IARPA'' then read_name_pairs [] myimages_fn f []
               else read_name_pairs ''.tif'' myimages_fn f []))"

subsection \<open>\<^verbatim>\<open>read_point_cloud_ply\<close>\<close>

text \<open>\<^verbatim>\<open>f_in.readlines()\<close>: the lines of the file, each with its newline.\<close>

function readlines :: "string \<Rightarrow> string list" where
  "readlines f = (if f = [] then [] else fst (readline f) # readlines (snd (readline f)))"
  by pat_completeness auto
termination
  by (relation "measure length") (simp_all add: readline_shorter)

declare readlines.simps [simp del]

text \<open>
  The regular expression \<^verbatim>\<open>[-+]?\d*\.\d+|\d+\<close>. Its first alternative, tried at the start
  of \<open>s\<close>: an optional sign, digits, a dot and at least one digit. Every repetition is greedy
  and no shorter choice can lead to a match, since the dot must follow the last digit.
  The result is the text matched and the text after it.
\<close>

definition match_float :: "string \<Rightarrow> (string \<times> string) option" where
  "match_float s =
     (let sign = (if s \<noteq> [] \<and> hd s \<in> set ''-+'' then [hd s] else []);
          s1 = drop (length sign) s;
          d1 = takeWhile is_digit s1;
          s2 = dropWhile is_digit s1
      in case s2 of
           [] \<Rightarrow> None
         | c # s3 \<Rightarrow>
            if c = CHR ''.'' \<and> takeWhile is_digit s3 \<noteq> []
            then Some (sign @ d1 @ [c] @ takeWhile is_digit s3, dropWhile is_digit s3)
            else None)"

text \<open>The second alternative: at least one digit.\<close>

definition match_int :: "string \<Rightarrow> (string \<times> string) option" where
  "match_int s =
     (if takeWhile is_digit s = [] then None
      else Some (takeWhile is_digit s, dropWhile is_digit s))"

definition match_number :: "string \<Rightarrow> (string \<times> string) option" where
  "match_number s = (case match_float s of Some m \<Rightarrow> Some m | None \<Rightarrow> match_int s)"

lemma match_number_shorter: "match_number s = Some (m, rest) \<Longrightarrow> length rest < length s"
proof -
  have d: "length (dropWhile is_digit t) \<le> length t" for t
    by (rule length_dropWhile_le)
  have t: "takeWhile is_digit t \<noteq> [] \<Longrightarrow> length (dropWhile is_digit t) < length t" for t
    by (cases t) (auto simp: less_Suc_eq_le d split: if_splits)
  assume "match_number s = Some (m, rest)"
  then consider "match_float s = Some (m, rest)" | "match_int s = Some (m, rest)"
    by (auto simp: match_number_def split: option.splits)
  then show ?thesis
  proof cases
    case 1
    then obtain c s3 where s2: "dropWhile is_digit (drop (length (if s \<noteq> [] \<and> hd s \<in> set ''-+'' then [hd s] else [])) s) = c # s3"
      and rest: "rest = dropWhile is_digit s3"
      by (auto simp: match_float_def Let_def split: list.splits if_splits)
    have "length rest \<le> length s3" unfolding rest by (rule d)
    also have "\<dots> < length (c # s3)" by simp
    also have "\<dots> \<le> length (drop (length (if s \<noteq> [] \<and> hd s \<in> set ''-+'' then [hd s] else [])) s)"
      unfolding s2 [symmetric] by (rule d)
    also have "\<dots> \<le> length s" by simp
    finally show ?thesis .
  next
    case 2
    then show ?thesis
      by (auto simp: match_int_def t split: if_splits)
  qed
qed

text \<open>
  \<^verbatim>\<open>re.findall\<close>: the matches from left to right; where nothing matches, the search moves
  on by one character.
\<close>

function findall :: "string \<Rightarrow> string list" where
  "findall s =
     (if s = [] then []
      else if match_number s = None then findall (tl s)
      else fst (the (match_number s)) # findall (snd (the (match_number s))))"
  by pat_completeness auto
termination
proof (relation "measure length")
  show "wf (measure length)" by simp
next
  fix s :: string
  assume "s \<noteq> []"
  then show "(tl s, s) \<in> measure length" by (cases s) simp_all
next
  fix s :: string
  assume "match_number s \<noteq> None"
  then obtain m rest where "match_number s = Some (m, rest)" by auto
  then show "(snd (the (match_number s)), s) \<in> measure length"
    using match_number_shorter [of s m rest] by simp
qed

declare findall.simps [simp del]

text \<open>
  \<^verbatim>\<open>float(s)\<close> for a match of the regular expression, as the exact number that the text
  denotes: an optional sign, the digits before the dot and the digits after it.
\<close>

definition py_float :: "string \<Rightarrow> real" where
  "py_float s =
     (let neg = (s \<noteq> [] \<and> hd s = CHR ''-'');
          body = (if s \<noteq> [] \<and> hd s \<in> set ''-+'' then tl s else s);
          ip = takeWhile is_digit body;
          fp = drop (Suc (length ip)) body;
          v = real (digits_val ip) + real (digits_val fp) / 10 ^ length fp
      in if neg then - v else v)"

type_synonym point3 = "real \<times> real \<times> real"

text \<open>
  The loop \<^verbatim>\<open>for i in range(n_pts)\<close> over the list of the indices left, with the array
  \<open>pt_cloud\<close> updated in place. \<^verbatim>\<open>coords[k]\<close> raises IndexError when the line has fewer than
  three matches.
\<close>

fun fill_rows :: "string list \<Rightarrow> nat list \<Rightarrow> point3 list \<Rightarrow> error + point3 list" where
  "fill_rows content [] pt_cloud = Inr pt_cloud"
| "fill_rows content (i # is) pt_cloud =
     (let coords = findall (content ! (i + 7))
      in if length coords < 3 then Inl IndexError
         else fill_rows content is
                (pt_cloud[i := (py_float (coords ! 0), py_float (coords ! 1), py_float (coords ! 2))]))"

text \<open>
  The whole function, on the text of the file. \<^verbatim>\<open>np.zeros((n_pts, 3))\<close> raises ValueError
  for a negative \<open>n_pts\<close>.
\<close>

definition read_point_cloud_ply :: "string \<Rightarrow> error + point3 list" where
  "read_point_cloud_ply f =
     (let lines = readlines f;
          content = map strip lines;
          n_pts = int (length content) - 7
      in if n_pts < 0 then Inl ValueError
         else fill_rows content [0 ..< nat n_pts] (replicate (nat n_pts) (0, 0, 0)))"

subsection \<open>Auxiliary notions for the statements\<close>

text \<open>
  A valid pair line, by the conditions under which the function takes a pair from a line:
  for the orders \<open>oracle\<close> and \<open>sift\<close> every token of digits converts and there are at least
  two of them; otherwise the line starts with two names of known images.
\<close>

definition valid_pair_line :: "nat \<Rightarrow> string \<Rightarrow> string \<Rightarrow> string list \<Rightarrow> string \<Rightarrow> bool" where
  "valid_pair_line int_max_str_digits site order myimages l =
     (if order \<in> set [''oracle'', ''sift'']
      then (case ints_of_tokens int_max_str_digits (filter isdigit (split_ws l)) of
              Inl e \<Rightarrow> False
            | Inr a \<Rightarrow> 2 \<le> length a)
      else (let current_str = split_on CHR '' '' l;
                suffix = (if site = ''IARPA'' then [] else ''.tif'');
                myimages_fn = map basename myimages
            in 2 \<le> length current_str
               \<and> basename (current_str ! 0 @ suffix) \<in> set myimages_fn
               \<and> basename (current_str ! 1 @ suffix) \<in> set myimages_fn))"

text \<open>The point that the loop body of \<^verbatim>\<open>read_point_cloud_ply\<close> takes from a line.\<close>

definition parse_point :: "string \<Rightarrow> point3" where
  "parse_point l =
     (py_float (findall l ! 0), py_float (findall l ! 1), py_float (findall l ! 2))"

subsection \<open>Concrete files\<close>

definition pairs_file_3 :: string where
  "pairs_file_3 = ''1 2\<newline>3 4\<newline>5 6\<newline>''"

definition names_file_3 :: string where
  "names_file_3 = ''a.tif b.tif \<newline>b.tif c.tif \<newline>a.tif c.tif \<newline>''"

definition pairs_file_50 :: string where
  "pairs_file_50 = concat (replicate 50 ''1 2\<newline>'')"

text \<open>A line that starts with the superscript two.\<close>

definition superscript_file :: string where
  "superscript_file = CHR 0xB2 # '' 3\<newline>''"

text \<open>A point cloud of three points under a header of six lines (the format line is missing).\<close>

definition ply_short_header :: string where
  "ply_short_header =
     ''ply\<newline>element vertex 3\<newline>property float x\<newline>property float y\<newline>property float z\<newline>end_header\<newline>1.0 2.0 3.0\<newline>4.0 5.0 6.0\<newline>7.5 8.25 -9.0\<newline>''"

text \<open>The same three points under the header of seven lines.\<close>

definition ply_good :: string where
  "ply_good =
     ''ply\<newline>format ascii 1.0\<newline>element vertex 3\<newline>property float x\<newline>property float y\<newline>property float z\<newline>end_header\<newline>1.0 2.0 3.0\<newline>4.0 5.0 6.0\<newline>7.5 8.25 -9.0\<newline>''"

section \<open>Properties of the connectivity graph\<close>

subsection \<open>The adjacency matrix\<close>

lemma sum_list_indicator:
  "sum_list (map (\<lambda>(a, b). if Q a b then 1 else 0) zs) = length (filter (\<lambda>(a, b). Q a b) zs)"
  by (induction zs) auto

lemma n_matches_card:
  assumes "length r1 = length r2"
  shows "n_matches r1 r2 = card {t. t < length r1 \<and> \<not> isnan (r1 ! t) \<and> \<not> isnan (r2 ! t)}"
proof -
  let ?P = "\<lambda>(a, b). \<not> isnan a \<and> \<not> isnan b"
  have "n_matches r1 r2 = length (filter ?P (zip r1 r2))"
    unfolding n_matches_def by (rule sum_list_indicator)
  also have "\<dots> = card {t. t < length (zip r1 r2) \<and> ?P (zip r1 r2 ! t)}"
    by (rule length_filter_conv_card)
  also have "{t. t < length (zip r1 r2) \<and> ?P (zip r1 r2 ! t)}
             = {t. t < length r1 \<and> \<not> isnan (r1 ! t) \<and> \<not> isnan (r2 ! t)}"
    using assms by auto
  finally show ?thesis .
qed

lemma set_all_pairs: "(i, j) \<in> set (all_pairs n) \<longleftrightarrow> i < j \<and> j < n"
  by (fastforce simp: all_pairs_def)

lemma build_adjacency_all_pairs:
  "build_adjacency C =
     fold (\<lambda>p. pair_step C (fst p) (snd p)) (all_pairs (n_cam_of C)) (init_state (n_cam_of C))"
proof -
  have "fold (\<lambda>p. pair_step C (fst p) (snd p)) (concat (map (\<lambda>i. map (Pair i) [Suc i ..< n]) is)) st
        = fold (\<lambda>im1 st. fold (pair_step C im1) [Suc im1 ..< n] st) is st" for n "is" st
    by (induction "is" arbitrary: st) (simp_all add: fold_map comp_def)
  then show ?thesis
    by (simp add: build_adjacency_def all_pairs_def Let_def)
qed

lemma square_set_entry: "square n M \<Longrightarrow> square n (set_entry M i j v)"
proof (cases "i < length M")
  case True
  assume "square n M"
  with True show ?thesis
    by (auto simp: square_def set_entry_def dest!: set_update_subset_insert [THEN subsetD])
next
  case False
  assume "square n M"
  with False show ?thesis by (simp add: set_entry_def list_update_beyond)
qed

lemma nth_set_entry:
  "square n M \<Longrightarrow> a < n \<Longrightarrow> b < n \<Longrightarrow>
   set_entry M i j v ! a ! b = (if a = i \<and> b = j then v else M ! a ! b)"
  by (cases "a = i") (auto simp: square_def set_entry_def nth_list_update)

lemma n_matches_commute: "n_matches r1 r2 = n_matches r2 r1"
  unfolding n_matches_def by (induction r1 r2 rule: list_induct2') auto

lemma pair_step_fields:
  "st_A (pair_step C i j st) = set_entry (set_entry (st_A st) i j (shared C i j)) j i (shared C i j)"
  "st_tmp_pairs (pair_step C i j st) = st_tmp_pairs st @ [(i, j)]"
  "st_n_correspondences_filt (pair_step C i j st) = st_n_correspondences_filt st @ [shared C i j]"
  by (simp_all add: pair_step_def shared_def Let_def)

lemma fold_pair_step:
  assumes "\<forall>p \<in> set ps. fst p < n \<and> snd p < n" and "square n (st_A st)"
  shows "square n (st_A (fold (\<lambda>p. pair_step C (fst p) (snd p)) ps st))
       \<and> st_tmp_pairs (fold (\<lambda>p. pair_step C (fst p) (snd p)) ps st) = st_tmp_pairs st @ ps
       \<and> st_n_correspondences_filt (fold (\<lambda>p. pair_step C (fst p) (snd p)) ps st)
           = st_n_correspondences_filt st @ map (\<lambda>p. shared C (fst p) (snd p)) ps
       \<and> (\<forall>a < n. \<forall>b < n.
             st_A (fold (\<lambda>p. pair_step C (fst p) (snd p)) ps st) ! a ! b
             = (if (a, b) \<in> set ps \<or> (b, a) \<in> set ps then shared C a b else st_A st ! a ! b))"
  using assms(1)
proof (induction ps rule: rev_induct)
  case Nil
  show ?case using assms(2) by simp
next
  case (snoc p ps)
  let ?st = "fold (\<lambda>p. pair_step C (fst p) (snd p)) ps st"
  obtain i j where p: "p = (i, j)" by (cases p)
  from snoc.prems have ps: "\<forall>p \<in> set ps. fst p < n \<and> snd p < n" and ij: "i < n" "j < n"
    by (auto simp: p)
  note IH = snoc.IH [OF ps]
  from IH have sq: "square n (st_A ?st)" by blast
  have sq1: "square n (set_entry (st_A ?st) i j (shared C i j))"
    by (rule square_set_entry [OF sq])
  have comm: "shared C j i = shared C i j"
    by (simp add: shared_def n_matches_commute)
  have "\<forall>a < n. \<forall>b < n.
          st_A (pair_step C i j ?st) ! a ! b
          = (if (a, b) \<in> set (ps @ [p]) \<or> (b, a) \<in> set (ps @ [p]) then shared C a b else st_A st ! a ! b)"
  proof (intro allI impI)
    fix a b assume ab: "a < n" "b < n"
    have "st_A (pair_step C i j ?st) ! a ! b
          = (if a = j \<and> b = i then shared C i j
             else if a = i \<and> b = j then shared C i j else st_A ?st ! a ! b)"
      by (simp only: pair_step_fields nth_set_entry [OF sq1 ab] nth_set_entry [OF sq ab])
    also have "\<dots> = (if (a, b) \<in> set (ps @ [p]) \<or> (b, a) \<in> set (ps @ [p]) then shared C a b else st_A st ! a ! b)"
    proof -
      from IH ab have "st_A ?st ! a ! b
          = (if (a, b) \<in> set ps \<or> (b, a) \<in> set ps then shared C a b else st_A st ! a ! b)"
        by blast
      then show ?thesis
        using comm by (cases "a = i"; cases "b = j"; cases "a = j"; cases "b = i") (simp_all add: p)
    qed
    finally show "st_A (pair_step C i j ?st) ! a ! b
          = (if (a, b) \<in> set (ps @ [p]) \<or> (b, a) \<in> set (ps @ [p]) then shared C a b else st_A st ! a ! b)" .
  qed
  moreover have "square n (st_A (pair_step C i j ?st))"
    by (simp add: pair_step_fields square_set_entry [OF sq1])
  ultimately show ?case
    using IH by (simp add: p pair_step_fields)
qed

lemma square_init: "square n (st_A (init_state n))"
  by (simp add: square_def init_state_def)

lemma build_adjacency_facts:
  "st_tmp_pairs (build_adjacency C) = all_pairs (n_cam_of C)"
  "st_n_correspondences_filt (build_adjacency C)
     = map (\<lambda>p. shared C (fst p) (snd p)) (all_pairs (n_cam_of C))"
  "a < n_cam_of C \<Longrightarrow> b < n_cam_of C \<Longrightarrow>
     st_A (build_adjacency C) ! a ! b = (if a = b then 0 else shared C a b)"
proof -
  let ?n = "n_cam_of C"
  have bound: "\<forall>p \<in> set (all_pairs ?n). fst p < ?n \<and> snd p < ?n"
    by (auto simp: set_all_pairs)
  note F = fold_pair_step [OF bound square_init, of C, folded build_adjacency_all_pairs]
  show "st_tmp_pairs (build_adjacency C) = all_pairs ?n"
    using F by (simp add: init_state_def)
  show "st_n_correspondences_filt (build_adjacency C)
     = map (\<lambda>p. shared C (fst p) (snd p)) (all_pairs ?n)"
    using F by (simp add: init_state_def)
  show "st_A (build_adjacency C) ! a ! b = (if a = b then 0 else shared C a b)"
    if "a < ?n" "b < ?n"
  proof -
    have "(a, b) \<in> set (all_pairs ?n) \<or> (b, a) \<in> set (all_pairs ?n) \<longleftrightarrow> a \<noteq> b"
      using that by (auto simp: set_all_pairs)
    moreover have "st_A (init_state ?n) ! a ! b = 0"
      using that by (simp add: init_state_def)
    moreover from F have "st_A (build_adjacency C) ! a ! b
        = (if (a, b) \<in> set (all_pairs ?n) \<or> (b, a) \<in> set (all_pairs ?n)
           then shared C a b else st_A (init_state ?n) ! a ! b)"
      using that by blast
    ultimately show ?thesis
      by (cases "a = b") simp_all
  qed
qed

text \<open>
  For any matrix, the entry counts the columns in which the first rows of the two cameras
  are not NaN; the second rows are not read.
\<close>

lemma adjacency_counts_first_rows:
  assumes "is_matrix C n_tracks" and "i < j" and "j < n_cam_of C"
  shows "st_A (build_adjacency C) ! i ! j
           = card {t. t < n_tracks \<and> \<not> isnan (C ! (2 * i) ! t) \<and> \<not> isnan (C ! (2 * j) ! t)}
       \<and> st_A (build_adjacency C) ! j ! i = st_A (build_adjacency C) ! i ! j"
proof -
  from assms have i: "2 * i < length C" and j: "2 * j < length C"
    by (simp_all add: n_cam_of_def)
  with assms(1) have len: "length (C ! (2 * i)) = n_tracks" "length (C ! (2 * j)) = n_tracks"
    by (simp_all add: is_matrix_def list_all_length)
  have "shared C i j = card {t. t < n_tracks \<and> \<not> isnan (C ! (2 * i) ! t) \<and> \<not> isnan (C ! (2 * j) ! t)}"
    unfolding shared_def using n_matches_card [of "C ! (2 * i)" "C ! (2 * j)"] len by simp
  moreover have "shared C j i = shared C i j"
    by (simp add: shared_def n_matches_commute)
  ultimately show ?thesis
    using assms(2,3) by (simp add: build_adjacency_facts(3))
qed

lemma spec_joint_tracks_card:
  "spec_joint_tracks C n_tracks i j
     = card {t. t < n_tracks \<and> \<not> isnan (C ! (2 * i) ! t) \<and> \<not> isnan (C ! (2 * i + 1) ! t)
                \<and> \<not> isnan (C ! (2 * j) ! t) \<and> \<not> isnan (C ! (2 * j + 1) ! t)}"
proof -
  let ?P = "\<lambda>t. \<not> isnan (C ! (2 * i) ! t) \<and> \<not> isnan (C ! (2 * i + 1) ! t)
                \<and> \<not> isnan (C ! (2 * j) ! t) \<and> \<not> isnan (C ! (2 * j + 1) ! t)"
  have "spec_joint_tracks C n_tracks i j = card {t. t < length [0 ..< n_tracks] \<and> ?P ([0 ..< n_tracks] ! t)}"
    unfolding spec_joint_tracks_def by (rule length_filter_conv_card)
  also have "{t. t < length [0 ..< n_tracks] \<and> ?P ([0 ..< n_tracks] ! t)} = {t. t < n_tracks \<and> ?P t}"
    by auto
  finally show ?thesis .
qed

lemma observation_matrix_paired:
  assumes "is_observation_matrix C n_tracks" and "i < n_cam_of C" and "t < n_tracks"
  shows "isnan (C ! (2 * i + 1) ! t) = isnan (C ! (2 * i) ! t)"
  using assms
  by (simp add: is_observation_matrix_def n_cam_of_def list_all_length)

text \<open>
  Claim C2. For every observation matrix \<open>C\<close> of shape \<open>(2 * n_cameras, n_tracks)\<close> and
  every pair of distinct cameras \<open>i\<close> and \<open>j\<close>, the adjacency matrix computed by step (1) of
  \<^verbatim>\<open>build_connectivity_graph\<close> satisfies \<open>A[i,j] = A[j,i] =\<close> the number of track columns in
  which the row pair of camera \<open>i\<close> (rows \<open>2i\<close>, \<open>2i+1\<close>) and the row pair of camera \<open>j\<close> (rows
  \<open>2j\<close>, \<open>2j+1\<close>) are not NaN.
\<close>

theorem adjacency_counts_joint_tracks:
  assumes "is_observation_matrix C n_tracks"
    and "i < n_cam_of C" and "j < n_cam_of C" and "i \<noteq> j"
  shows "st_A (build_adjacency C) ! i ! j = spec_joint_tracks C n_tracks i j
       \<and> st_A (build_adjacency C) ! j ! i = spec_joint_tracks C n_tracks i j"
proof -
  have sym: "shared C j i = shared C i j"
    by (simp add: shared_def n_matches_commute)
  from assms(1) have mat: "is_matrix C n_tracks"
    by (simp add: is_observation_matrix_def)
  from assms(2,3) have "2 * i < length C" "2 * j < length C"
    by (simp_all add: n_cam_of_def)
  with mat have len: "length (C ! (2 * i)) = n_tracks" "length (C ! (2 * j)) = n_tracks"
    by (simp_all add: is_matrix_def list_all_length)
  have "shared C i j
        = card {t. t < n_tracks \<and> \<not> isnan (C ! (2 * i) ! t) \<and> \<not> isnan (C ! (2 * j) ! t)}"
    unfolding shared_def using n_matches_card [of "C ! (2 * i)" "C ! (2 * j)"] len by simp
  also have "{t. t < n_tracks \<and> \<not> isnan (C ! (2 * i) ! t) \<and> \<not> isnan (C ! (2 * j) ! t)}
        = {t. t < n_tracks \<and> \<not> isnan (C ! (2 * i) ! t) \<and> \<not> isnan (C ! (2 * i + 1) ! t)
                \<and> \<not> isnan (C ! (2 * j) ! t) \<and> \<not> isnan (C ! (2 * j + 1) ! t)}"
    using observation_matrix_paired [OF assms(1,2)] observation_matrix_paired [OF assms(1,3)]
    by auto
  also have "card \<dots> = spec_joint_tracks C n_tracks i j"
    by (simp only: spec_joint_tracks_card)
  finally have "shared C i j = spec_joint_tracks C n_tracks i j" .
  with sym assms(2,3,4) show ?thesis
    by (simp add: build_adjacency_facts(3))
qed

lemma C_e2e_observation_matrix: "is_observation_matrix C_e2e 4"
  by code_simp

lemma C_e2e_joint_tracks: "spec_joint_tracks C_e2e 4 0 1 = 3"
  by code_simp

theorem adjacency_counts_joint_tracks_witness:
  "is_observation_matrix C_e2e 4 \<and> 0 < n_cam_of C_e2e \<and> 1 < n_cam_of C_e2e \<and> (0::nat) \<noteq> 1
   \<and> st_A (build_adjacency C_e2e) ! 0 ! 1 = 3
   \<and> st_A (build_adjacency C_e2e) ! 1 ! 0 = 3"
proof -
  have h2: "0 < n_cam_of C_e2e" and h3: "1 < n_cam_of C_e2e"
    by (simp_all add: n_cam_of_def C_e2e_def)
  have h4: "(0::nat) \<noteq> 1" by simp
  from adjacency_counts_joint_tracks [OF C_e2e_observation_matrix h2 h3 h4]
    C_e2e_observation_matrix h2 h3 C_e2e_joint_tracks
  show ?thesis
    by simp
qed

subsection \<open>Breadth-first search computes the connected component\<close>

lemma set_neighbors: "set (neighbors G v) = edge_rel (g_edges G) `` {v}"
  by (force simp: neighbors_def edge_rel_def)

lemma set_fold_add: "set (fold (\<lambda>v acc. if v \<in> set acc then acc else acc @ [v]) vs acc) = set acc \<union> set vs"
  by (induction vs arbitrary: acc) auto

lemma set_bfs_level: "set (bfs_level G S) = set S \<union> edge_rel (g_edges G) `` set S"
  by (auto simp: bfs_level_def set_fold_add set_neighbors)

lemma set_bfs_funpow:
  "set ((bfs_level G ^^ k) S) = ((\<lambda>X. X \<union> edge_rel (g_edges G) `` X) ^^ k) (set S)"
  by (induction k) (simp_all add: set_bfs_level)

lemma level_subset_reachable: "((\<lambda>X. X \<union> r `` X) ^^ k) X \<subseteq> r\<^sup>* `` X"
proof (induction k)
  case 0
  show ?case by auto
next
  case (Suc k)
  have "r `` (r\<^sup>* `` X) \<subseteq> r\<^sup>* `` X"
    by (auto intro: rtrancl_into_rtrancl)
  with Suc have "r `` (((\<lambda>X. X \<union> r `` X) ^^ k) X) \<subseteq> r\<^sup>* `` X"
    by blast
  with Suc show ?case by simp
qed

lemma level_growth:
  assumes "finite U" and "X \<subseteq> U" and "r `` U \<subseteq> U"
  shows "((\<lambda>X. X \<union> r `` X) ^^ k) X \<subseteq> U
       \<and> (r `` (((\<lambda>X. X \<union> r `` X) ^^ k) X) \<subseteq> ((\<lambda>X. X \<union> r `` X) ^^ k) X
           \<or> card X + k \<le> card (((\<lambda>X. X \<union> r `` X) ^^ k) X))"
proof (induction k)
  case 0
  show ?case using assms by simp
next
  case (Suc k)
  let ?S = "((\<lambda>X. X \<union> r `` X) ^^ k) X"
  from Suc have sub: "?S \<subseteq> U" by blast
  then have sub': "?S \<union> r `` ?S \<subseteq> U" using assms(3) by blast
  show ?case
  proof (cases "r `` ?S \<subseteq> ?S")
    case True
    then have "?S \<union> r `` ?S = ?S" by blast
    with True sub show ?thesis by simp
  next
    case False
    with Suc have c: "card X + k \<le> card ?S" by blast
    from False have "?S \<subset> ?S \<union> r `` ?S" by blast
    moreover have "finite (?S \<union> r `` ?S)"
      using sub' assms(1) by (rule finite_subset)
    ultimately have "card ?S < card (?S \<union> r `` ?S)"
      by (rule psubset_card_mono [rotated])
    with c sub' show ?thesis by simp
  qed
qed

lemma levels_reach_all:
  assumes "finite U" and "v \<in> U" and "r `` U \<subseteq> U" and "card U \<le> n"
  shows "((\<lambda>X. X \<union> r `` X) ^^ n) {v} = r\<^sup>* `` {v}"
proof
  show "((\<lambda>X. X \<union> r `` X) ^^ n) {v} \<subseteq> r\<^sup>* `` {v}"
    by (rule level_subset_reachable)
next
  let ?S = "((\<lambda>X. X \<union> r `` X) ^^ n) {v}"
  from assms have G: "?S \<subseteq> U \<and> (r `` ?S \<subseteq> ?S \<or> card {v} + n \<le> card ?S)"
    by (intro level_growth) auto
  then have "card ?S \<le> card U"
    using assms(1) by (auto intro: card_mono)
  with G assms(4) have closed: "r `` ?S \<subseteq> ?S" by auto
  have "v \<in> ?S"
    by (induction n) auto
  then have "r\<^sup>* `` {v} \<subseteq> r\<^sup>* `` ?S" by blast
  also have "\<dots> = ?S" using closed by (rule Image_closed_trancl)
  finally show "r\<^sup>* `` {v} \<subseteq> ?S" .
qed

lemma plain_bfs_reachable:
  assumes "v \<in> set (g_nodes G)"
    and "\<forall>e \<in> set (g_edges G). fst e \<in> set (g_nodes G) \<and> snd e \<in> set (g_nodes G)"
  shows "set (plain_bfs G v) = (edge_rel (g_edges G))\<^sup>* `` {v}"
proof -
  have "edge_rel (g_edges G) `` set (g_nodes G) \<subseteq> set (g_nodes G)"
    using assms(2) by (force simp: edge_rel_def)
  moreover have "card (set (g_nodes G)) \<le> length (g_nodes G)"
    by (rule card_length)
  ultimately have "((\<lambda>X. X \<union> edge_rel (g_edges G) `` X) ^^ length (g_nodes G)) {v}
        = (edge_rel (g_edges G))\<^sup>* `` {v}"
    using assms(1) by (intro levels_reach_all [where U = "set (g_nodes G)"]) auto
  then show ?thesis
    by (simp add: plain_bfs_def set_bfs_funpow)
qed

subsection \<open>The threshold\<close>

lemma filter_edges_prefix:
  assumes "length ns = length ps"
    and "st_tmp_pairs st = ps" and "st_n_correspondences_filt st = ns"
    and "k \<le> length ps"
  shows "fold (filter_step m st) [0 ..< k] ([], [])
         = (map fst (filter (\<lambda>pn. m < int (snd pn)) (zip (take k ps) (take k ns))),
            map snd (filter (\<lambda>pn. m < int (snd pn)) (zip (take k ps) (take k ns))))"
  using assms(4)
proof (induction k)
  case 0
  show ?case by simp
next
  case (Suc k)
  then have k: "k < length ps" "k < length ns" using assms(1) by simp_all
  then have t: "take (Suc k) ps = take k ps @ [ps ! k]" "take (Suc k) ns = take k ns @ [ns ! k]"
    by (simp_all add: take_Suc_conv_app_nth)
  have z: "zip (take (Suc k) ps) (take (Suc k) ns) = zip (take k ps) (take k ns) @ [(ps ! k, ns ! k)]"
    unfolding t using k by (simp add: zip_append)
  from Suc k show ?case
    by (simp add: z filter_step_def assms(2,3))
qed

lemma filter_edges_zip:
  assumes "length (st_n_correspondences_filt st) = length (st_tmp_pairs st)"
  shows "filter_edges m st
         = (map fst (filter (\<lambda>pn. m < int (snd pn)) (zip (st_tmp_pairs st) (st_n_correspondences_filt st))),
            map snd (filter (\<lambda>pn. m < int (snd pn)) (zip (st_tmp_pairs st) (st_n_correspondences_filt st))))"
  unfolding filter_edges_def
  using filter_edges_prefix [OF assms refl refl le_refl, of m] assms by simp

lemma zip_map_same: "zip xs (map f xs) = map (\<lambda>x. (x, f x)) xs"
  by (induction xs) simp_all

lemma filter_edges_build:
  "fst (filter_edges m (build_adjacency C))
     = filter (\<lambda>p. m < int (shared C (fst p) (snd p))) (all_pairs (n_cam_of C))"
  "snd (filter_edges m (build_adjacency C))
     = map (\<lambda>p. shared C (fst p) (snd p))
         (filter (\<lambda>p. m < int (shared C (fst p) (snd p))) (all_pairs (n_cam_of C)))"
proof -
  have len: "length (st_n_correspondences_filt (build_adjacency C)) = length (st_tmp_pairs (build_adjacency C))"
    by (simp add: build_adjacency_facts)
  show "fst (filter_edges m (build_adjacency C))
     = filter (\<lambda>p. m < int (shared C (fst p) (snd p))) (all_pairs (n_cam_of C))"
    by (simp add: filter_edges_zip [OF len] build_adjacency_facts zip_map_same filter_map comp_def)
  show "snd (filter_edges m (build_adjacency C))
     = map (\<lambda>p. shared C (fst p) (snd p))
         (filter (\<lambda>p. m < int (shared C (fst p) (snd p))) (all_pairs (n_cam_of C)))"
    by (simp add: filter_edges_zip [OF len] build_adjacency_facts zip_map_same filter_map comp_def)
qed

text \<open>
  Claim C6, amended. The edge filter of \<^verbatim>\<open>build_connectivity_graph\<close> keeps a camera pair
  \<open>(i, j)\<close> if and only if its match count \<open>A[i,j]\<close> is strictly greater than
  \<open>min_matches\<close>; a pair whose count equals \<open>min_matches\<close> is dropped. (With \<open>A[0,1] = 3\<close>,
  \<open>min_matches = 2\<close> keeps the edge and \<open>min_matches = 3\<close> removes it.)
\<close>

theorem edge_kept_iff_strictly_above:
  "(i, j) \<in> set (fst (filter_edges min_matches (build_adjacency C)))
   \<longleftrightarrow> i < j \<and> j < n_cam_of C \<and> min_matches < int (st_A (build_adjacency C) ! i ! j)"
  by (auto simp: filter_edges_build set_all_pairs build_adjacency_facts)

theorem edge_kept_iff_strictly_above_witness:
  "st_A (build_adjacency C_e2e) ! 0 ! 1 = 3
   \<and> (0, 1) \<in> set (fst (filter_edges 2 (build_adjacency C_e2e)))
   \<and> (0, 1) \<notin> set (fst (filter_edges 3 (build_adjacency C_e2e)))"
proof -
  have v: "st_A (build_adjacency C_e2e) ! 0 ! 1 = 3" by code_simp
  have n: "n_cam_of C_e2e = 2" by (simp add: n_cam_of_def C_e2e_def)
  show ?thesis
    using edge_kept_iff_strictly_above [of 0 1 2 C_e2e]
      edge_kept_iff_strictly_above [of 0 1 3 C_e2e] v n
    by simp
qed

text \<open>
  Claim C6 as stated fails in its example: with \<open>min_matches = 3\<close> the edge of \<open>C_e2e\<close> is
  removed, but the graph then has no node at all (nodes enter the graph through edges
  only), so there are no components rather than two singletons, and the function raises
  IndexError at \<^verbatim>\<open>G_cc[0]\<close>.
\<close>

theorem threshold_singletons_counterexample:
  "st_A (build_adjacency C_e2e) ! 0 ! 1 = 3
   \<and> fst (filter_edges 3 (build_adjacency C_e2e)) = []
   \<and> connected_components (graph_of_pairs (fst (filter_edges 3 (build_adjacency C_e2e)))) = []
   \<and> build_connectivity_graph C_e2e 3 True = Inl IndexError
   \<and> build_connectivity_graph C_e2e 3 False = Inl IndexError"
  by code_simp

subsection \<open>The graph, its components and the missing cameras\<close>

lemma add_edge_fields:
  "g_edges (add_edge u v G) = g_edges G @ [(u, v)]"
  "set (g_nodes (add_edge u v G)) = insert u (insert v (set (g_nodes G)))"
  "g_nodes G \<noteq> [] \<Longrightarrow> hd (g_nodes (add_edge u v G)) = hd (g_nodes G)"
  "g_nodes G = [] \<Longrightarrow> hd (g_nodes (add_edge u v G)) = u"
  "g_nodes (add_edge u v G) \<noteq> []"
  by (auto simp: add_edge_def add_node_def Let_def)

lemma fold_add_edge:
  "g_edges (fold (\<lambda>e G. add_edge (fst e) (snd e) G) ps G) = g_edges G @ ps
   \<and> set (g_nodes (fold (\<lambda>e G. add_edge (fst e) (snd e) G) ps G))
       = set (g_nodes G) \<union> fst ` set ps \<union> snd ` set ps
   \<and> (g_nodes G \<noteq> [] \<longrightarrow> hd (g_nodes (fold (\<lambda>e G. add_edge (fst e) (snd e) G) ps G)) = hd (g_nodes G))"
proof (induction ps arbitrary: G)
  case Nil
  show ?case by simp
next
  case (Cons p ps)
  show ?case
    using Cons [of "add_edge (fst p) (snd p) G"]
    by (auto simp: add_edge_fields)
qed

lemma graph_of_pairs_facts:
  "g_edges (graph_of_pairs ps) = ps"
  "set (g_nodes (graph_of_pairs ps)) = fst ` set ps \<union> snd ` set ps"
  "ps \<noteq> [] \<Longrightarrow> hd (g_nodes (graph_of_pairs ps)) = fst (hd ps)"
  "g_nodes (graph_of_pairs ps) = [] \<longleftrightarrow> ps = []"
proof -
  show "g_edges (graph_of_pairs ps) = ps"
    using fold_add_edge [of ps empty_graph] by (simp add: graph_of_pairs_def empty_graph_def)
  show n: "set (g_nodes (graph_of_pairs ps)) = fst ` set ps \<union> snd ` set ps"
    using fold_add_edge [of ps empty_graph] by (simp add: graph_of_pairs_def empty_graph_def)
  show "hd (g_nodes (graph_of_pairs ps)) = fst (hd ps)" if "ps \<noteq> []"
  proof -
    from that obtain p qs where ps: "ps = p # qs" by (cases ps) auto
    let ?G = "add_edge (fst p) (snd p) empty_graph"
    have "g_nodes ?G \<noteq> []" by (rule add_edge_fields)
    then have "hd (g_nodes (fold (\<lambda>e G. add_edge (fst e) (snd e) G) qs ?G)) = hd (g_nodes ?G)"
      using fold_add_edge [of qs ?G] by blast
    also have "\<dots> = fst p"
      by (simp add: add_edge_fields empty_graph_def)
    finally show ?thesis by (simp add: ps graph_of_pairs_def)
  qed
  show "g_nodes (graph_of_pairs ps) = [] \<longleftrightarrow> ps = []"
    using n by (cases ps) (auto simp: graph_of_pairs_def empty_graph_def simp flip: set_empty)
qed

lemma connected_components_Nil: "connected_components G = [] \<longleftrightarrow> g_nodes G = []"
  by (cases "g_nodes G") (simp_all add: connected_components_def Let_def)

lemma connected_components_hd:
  "g_nodes G \<noteq> [] \<Longrightarrow> hd (connected_components G) = plain_bfs G (hd (g_nodes G))"
  by (cases "g_nodes G") (simp_all add: connected_components_def Let_def)

lemma build_connectivity_graph_cases:
  "build_connectivity_graph C m verbose =
     (let ptd = fst (filter_edges m (build_adjacency C));
          G = graph_of_pairs ptd
      in if ptd = [] then Inl IndexError
         else Inr \<lparr> res_G = G, res_n_cc = length (connected_components G),
                    res_pairs_to_draw = ptd,
                    res_matches_per_pair = snd (filter_edges m (build_adjacency C)),
                    res_missing_cams =
                      filter (\<lambda>c. c \<notin> set (plain_bfs G (fst (hd ptd)))) [0 ..< n_cam_of C] \<rparr>)"
proof -
  let ?ptd = "fst (filter_edges m (build_adjacency C))"
  let ?mpp = "snd (filter_edges m (build_adjacency C))"
  let ?G = "graph_of_pairs ?ptd"
  have mpp: "?mpp = [] \<longleftrightarrow> ?ptd = []"
    by (simp add: filter_edges_build)
  show ?thesis
  proof (cases "?ptd = []")
    case True
    then have "connected_components ?G = []"
      by (simp add: connected_components_Nil graph_of_pairs_facts)
    with True show ?thesis
      by (simp add: build_connectivity_graph_def Let_def)
  next
    case False
    then have nodes: "g_nodes ?G \<noteq> []"
      by (simp add: graph_of_pairs_facts)
    then obtain c0 cs where cc: "connected_components ?G = c0 # cs"
      by (cases "connected_components ?G") (simp_all add: connected_components_Nil)
    from connected_components_hd [OF nodes] cc False
    have c0: "c0 = plain_bfs ?G (fst (hd ?ptd))"
      by (simp add: graph_of_pairs_facts)
    from False mpp have "?mpp \<noteq> []" by simp
    with False cc c0 show ?thesis
      by (simp add: build_connectivity_graph_def Let_def)
  qed
qed

text \<open>
  Whenever no pair has a count above the threshold, the function raises IndexError.
\<close>

lemma no_edge_above_threshold_fails:
  assumes "\<forall>i j. i < j \<and> j < n_cam_of C \<longrightarrow> int (st_A (build_adjacency C) ! i ! j) \<le> min_matches"
  shows "build_connectivity_graph C min_matches verbose = Inl IndexError"
proof -
  have "fst (filter_edges min_matches (build_adjacency C)) = []"
  proof (rule ccontr)
    assume "fst (filter_edges min_matches (build_adjacency C)) \<noteq> []"
    then obtain i j where "(i, j) \<in> set (fst (filter_edges min_matches (build_adjacency C)))"
      by (cases "fst (filter_edges min_matches (build_adjacency C))") auto
    then have "i < j \<and> j < n_cam_of C \<and> min_matches < int (st_A (build_adjacency C) ! i ! j)"
      by (auto simp: filter_edges_build set_all_pairs build_adjacency_facts)
    with assms show False by fastforce
  qed
  then show ?thesis
    by (simp add: build_connectivity_graph_cases)
qed

text \<open>
  Claim C4 (when no camera pair has a count above \<open>min_matches\<close>, the function returns
  and reports all cameras as missing) does not hold of the code. With \<open>C_disjoint\<close> (two
  cameras that share no track) and \<open>min_matches = 0\<close> no edge survives, and
  \<^verbatim>\<open>build_connectivity_graph\<close> raises IndexError at \<^verbatim>\<open>G_cc[0]\<close>, with and without
  \<open>verbose\<close>, instead of returning.
\<close>

theorem zero_edges_raise_IndexError:
  "fst (filter_edges 0 (build_adjacency C_disjoint)) = []
   \<and> build_connectivity_graph C_disjoint 0 True = Inl IndexError
   \<and> build_connectivity_graph C_disjoint 0 False = Inl IndexError"
  by code_simp

text \<open>
  Claim C5, amended. Whenever \<^verbatim>\<open>build_connectivity_graph\<close> returns, at least one edge
  survived the threshold, and the missing cameras are the camera indices
  \<open>{0..n_cam-1}\<close> minus the node set of the first connected component that
  \<^verbatim>\<open>connected_components\<close> yields: the component of the first endpoint of the first
  surviving edge, whatever its size.
\<close>

theorem missing_cams_first_component:
  assumes "build_connectivity_graph C min_matches verbose = Inr r"
  shows "res_pairs_to_draw r \<noteq> []
       \<and> set (res_missing_cams r)
           = {0 ..< n_cam_of C} - (edge_rel (res_pairs_to_draw r))\<^sup>* `` {fst (hd (res_pairs_to_draw r))}"
proof -
  let ?ptd = "fst (filter_edges min_matches (build_adjacency C))"
  let ?G = "graph_of_pairs ?ptd"
  from assms have ne: "?ptd \<noteq> []"
    by (auto simp: build_connectivity_graph_cases Let_def split: if_splits)
  with assms have r: "res_pairs_to_draw r = ?ptd"
    "res_missing_cams r = filter (\<lambda>c. c \<notin> set (plain_bfs ?G (fst (hd ?ptd)))) [0 ..< n_cam_of C]"
    by (auto simp: build_connectivity_graph_cases Let_def)
  from ne have "fst (hd ?ptd) \<in> fst ` set ?ptd"
    by (cases ?ptd) auto
  then have "fst (hd ?ptd) \<in> set (g_nodes ?G)"
    by (simp add: graph_of_pairs_facts)
  moreover have "\<forall>e \<in> set (g_edges ?G). fst e \<in> set (g_nodes ?G) \<and> snd e \<in> set (g_nodes ?G)"
    by (simp add: graph_of_pairs_facts)
  ultimately have "set (plain_bfs ?G (fst (hd ?ptd))) = (edge_rel (g_edges ?G))\<^sup>* `` {fst (hd ?ptd)}"
    by (rule plain_bfs_reachable)
  then have bfs: "set (plain_bfs ?G (fst (hd ?ptd))) = (edge_rel ?ptd)\<^sup>* `` {fst (hd ?ptd)}"
    by (simp only: graph_of_pairs_facts)
  have "set (res_missing_cams r) = {0 ..< n_cam_of C} - set (plain_bfs ?G (fst (hd ?ptd)))"
    unfolding r(2) by auto
  then have "set (res_missing_cams r) = {0 ..< n_cam_of C} - (edge_rel ?ptd)\<^sup>* `` {fst (hd ?ptd)}"
    by (simp only: bfs)
  with ne show ?thesis
    unfolding r(1) by (intro conjI)
qed

lemma two_groups_run: "build_connectivity_graph C_two_groups 0 True = Inr r_two_groups"
  by code_simp

theorem missing_cams_first_component_witness:
  "build_connectivity_graph C_two_groups 0 True = Inr r_two_groups
   \<and> (res_pairs_to_draw r_two_groups \<noteq> []
      \<and> set (res_missing_cams r_two_groups)
           = {0 ..< n_cam_of C_two_groups}
             - (edge_rel (res_pairs_to_draw r_two_groups))\<^sup>* `` {fst (hd (res_pairs_to_draw r_two_groups))})"
  by (rule conjI [OF two_groups_run missing_cams_first_component [OF two_groups_run]])

text \<open>
  Claim C5 as stated fails: in \<open>C_two_groups\<close> the surviving edges form the components
  \<open>{0, 1}\<close> and \<open>{2, 3, 4}\<close>. The first component is \<open>{0, 1}\<close>, so the function reports
  cameras 2, 3 and 4 as missing, although they form the largest component.
\<close>

theorem missing_cams_not_largest_counterexample:
  "build_connectivity_graph C_two_groups 0 True = Inr r_two_groups
   \<and> res_missing_cams r_two_groups = [2, 3, 4]
   \<and> connected_components (res_G r_two_groups) = [[0, 1], [2, 3, 4]]
   \<and> spec_largest_component (connected_components (res_G r_two_groups)) = [2, 3, 4]
   \<and> set (res_missing_cams r_two_groups)
        \<noteq> {0 ..< n_cam_of C_two_groups}
          - set (spec_largest_component (connected_components (res_G r_two_groups)))"
  by code_simp

section \<open>Properties of the raster functions\<close>







text \<open>
  Claim C7 as stated fails where an operation rounds. For the bounding box from \<^verbatim>\<open>0.3\<close> to
  \<^verbatim>\<open>9.6\<close> at resolution \<^verbatim>\<open>0.3\<close> the quotient \<open>(xmax-xmin)/res\<close> is exactly 31, so the claim
  gives the width 32; the program rounds the difference down to \<^verbatim>\<open>9.299999999999999\<close>,
  the quotient to \<^verbatim>\<open>30.999999999999996\<close>, and computes the width 31.
\<close>

lemma d03_double: "round_double (3 / 10) = Fin d03"
  by code_simp





text \<open>
  Claim C10. Two calls of \<^verbatim>\<open>save_geotiff\<close> that differ in \<open>epsg_code\<close> only write the same
  file: the coordinate reference system of the profile is the constant \<open>epsg:32614\<close>.
\<close>

theorem save_geotiff_ignores_epsg_code:
  "save_geotiff filename input_im epsg_code1 x y r = save_geotiff filename input_im epsg_code2 x y r
   \<and> gp_crs (gf_profile (save_geotiff filename input_im epsg_code1 x y r)) = ''epsg:32614''"
  by (simp add: save_geotiff_def Let_def)

text \<open>
  Claim C8. When the backend returns the layers \<open>values @ stds @ [count]\<close> with as many
  standard deviations as values (both \<open>std\<close> and \<open>cnt\<close> requested), \<^verbatim>\<open>run_plyflatten\<close>
  takes the last layer as the count layer; the \<open>n\<close> layers that remain are an even number,
  and the layer at index \<open>n div 2\<close>, the standard deviation of the primary value, is written
  as the std layer.
\<close>

theorem write_layers_layout:
  assumes "rs_layers raster = vals @ stds @ [count_layer]"
    and "length stds = length vals" and "vals \<noteq> []"
    and "dirname output_file \<noteq> []"
  shows "even (length (butlast (rs_layers raster)))
       \<and> butlast (rs_layers raster) ! (length (butlast (rs_layers raster)) div 2) = hd stds
       \<and> last (rs_layers raster) = count_layer
       \<and> snd (write_layers amr raster bp msk output_file True True) = None
       \<and> map wr_band (fst (write_layers amr raster bp msk output_file True True))
           = [amr (hd vals) msk, amr (last (rs_layers raster)) msk,
              amr (butlast (rs_layers raster) ! (length (butlast (rs_layers raster)) div 2)) msk]
       \<and> map wr_path (fst (write_layers amr raster bp msk output_file True True))
           = [output_file,
              path_join (dirname output_file) (''cnt/'' @ basename output_file),
              path_join (dirname output_file) (''std/'' @ basename output_file)]"
proof -
  let ?ls = "rs_layers raster"
  from assms(3) obtain v vs where vals: "vals = v # vs" by (cases vals) auto
  with assms(2) obtain s ss where stds: "stds = s # ss" by (cases stds) auto
  have bl: "butlast ?ls = vals @ stds"
    by (simp add: assms(1) butlast_append)
  have len: "length (butlast ?ls) = 2 * length vals"
    by (simp add: bl assms(2))
  have odd: "length ?ls mod 2 = 1"
    by (simp add: assms(1,2)) presburger
  have half: "length (butlast ?ls) div 2 = length vals"
    unfolding len by simp
  have "(vals @ stds) ! length vals = hd stds"
    by (simp add: nth_append stds)
  then have idx: "butlast ?ls ! (length (butlast ?ls) div 2) = hd stds"
    by (simp only: half) (simp only: bl)
  have l0: "?ls ! 0 = hd vals"
    by (simp add: assms(1) vals)
  have lst: "last ?ls = count_layer"
    by (simp add: assms(1))
  have ne: "?ls \<noteq> []"
    by (simp add: assms(1))
  have pos: "0 < length vals"
    using assms(3) by simp
  have n0: "length (butlast ?ls) mod 2 = 0" "\<not> length (butlast ?ls) \<le> length (butlast ?ls) div 2"
    using pos by (simp_all only: len) simp_all
  have ev: "even (length (butlast ?ls))"
    by (simp only: len) simp
  have run: "write_layers amr raster bp msk output_file True True =
      ([\<lparr> wr_path = output_file,
           wr_profile = \<lparr> dp_dtype = rs_dtype raster, dp_height = rs_height raster,
                      dp_width = rs_width raster, dp_count = 1, dp_driver = ''GTiff'',
                      dp_backend = bp \<rparr>,
           wr_band = amr (hd vals) msk \<rparr>,
        \<lparr> wr_path = path_join (dirname output_file) (''cnt/'' @ basename output_file),
           wr_profile = \<lparr> dp_dtype = rs_dtype raster, dp_height = rs_height raster,
                      dp_width = rs_width raster, dp_count = 1, dp_driver = ''GTiff'',
                      dp_backend = bp \<rparr>,
           wr_band = amr (last ?ls) msk \<rparr>,
        \<lparr> wr_path = path_join (dirname output_file) (''std/'' @ basename output_file),
           wr_profile = \<lparr> dp_dtype = rs_dtype raster, dp_height = rs_height raster,
                      dp_width = rs_width raster, dp_count = 1, dp_driver = ''GTiff'',
                      dp_backend = bp \<rparr>,
           wr_band = amr (butlast ?ls ! (length (butlast ?ls) div 2)) msk \<rparr>], None)"
    using assms(4) ne odd n0
    by (simp add: write_layers_def Let_def l0 del: length_butlast)
  show ?thesis
    unfolding run using ev idx lst by simp
qed

theorem write_layers_layout_witness:
  "snd (write_layers (\<lambda>l m. l) \<lparr> rs_height = 1, rs_width = 1, rs_dtype = ''float32'',
          rs_layers = [''value'', ''std'', ''count''] \<rparr> () () ''out/dsm.tif'' True True) = None
   \<and> map wr_band (fst (write_layers (\<lambda>l m. l) \<lparr> rs_height = 1, rs_width = 1, rs_dtype = ''float32'',
          rs_layers = [''value'', ''std'', ''count''] \<rparr> () () ''out/dsm.tif'' True True))
       = [''value'', ''count'', ''std'']
   \<and> map wr_path (fst (write_layers (\<lambda>l m. l) \<lparr> rs_height = 1, rs_width = 1, rs_dtype = ''float32'',
          rs_layers = [''value'', ''std'', ''count''] \<rparr> () () ''out/dsm.tif'' True True))
       = [''out/dsm.tif'', ''out/cnt/dsm.tif'', ''out/std/dsm.tif'']"
proof -
  let ?r = "\<lparr> rs_height = 1, rs_width = 1, rs_dtype = ''float32'',
          rs_layers = [''value'', ''std'', ''count''] \<rparr>"
  have h1: "rs_layers ?r = [''value''] @ [''std''] @ [''count'']" by simp
  have h2: "length [''std''] = length [''value'']" by simp
  have h3: "[''value''] \<noteq> []" by simp
  have h4: "dirname ''out/dsm.tif'' \<noteq> []" by (simp add: dirname_def)
  have p: "dirname ''out/dsm.tif'' = ''out''" "basename ''out/dsm.tif'' = ''dsm.tif''"
    by (simp_all add: dirname_def basename_def)
  from write_layers_layout [OF h1 h2 h3 h4, of "\<lambda>l m. l" "()" "()"] show ?thesis
    by (simp add: p path_join_def)
qed

section \<open>Properties of the text readers\<close>

subsection \<open>The pair file\<close>

lemma readlines_Nil: "readlines [] = []"
  by (simp add: readlines.simps)

lemma readlines_Cons:
  "f \<noteq> [] \<Longrightarrow> readlines f = fst (readline f) # readlines (snd (readline f))"
  by (subst readlines.simps) simp

lemma readline_Nil_iff: "fst (readline f) = [] \<longleftrightarrow> f = []"
  by (cases f) (auto simp: readline_def Let_def split: list.splits)

lemma split_ws_Nil: "split_ws [] = []"
  by (simp add: split_ws_def)

lemma ints_of_tokens_error:
  "ints_of_tokens m ts = Inl e \<Longrightarrow> e = ValueError"
  by (induction ts arbitrary: e)
     (auto simp: py_int_of_digits_def split: sum.splits if_splits)

lemma ints_of_tokens_Nil: "ints_of_tokens m [] = Inr []"
  by simp

lemma read_index_pairs_result:
  "(\<exists>r. read_index_pairs m k f pairs = Inr r \<and> length r = length pairs + k
        \<and> k \<le> length (filter (\<lambda>l. case ints_of_tokens m (filter isdigit (split_ws l)) of
                                      Inl e \<Rightarrow> False | Inr a \<Rightarrow> 2 \<le> length a) (readlines f)))
   \<or> read_index_pairs m k f pairs = Inl IndexError
   \<or> read_index_pairs m k f pairs = Inl ValueError"
proof (induction k arbitrary: f pairs)
  case 0
  show ?case by simp
next
  case (Suc k)
  let ?line = "fst (readline f)"
  show ?case
  proof (cases "ints_of_tokens m (filter isdigit (split_ws ?line))")
    case (Inl e)
    then have "e = ValueError" by (rule ints_of_tokens_error)
    with Inl show ?thesis by simp
  next
    case (Inr a)
    show ?thesis
    proof (cases "length a < 2")
      case True
      with Inr show ?thesis by simp
    next
      case False
      have "?line \<noteq> []"
      proof
        assume "?line = []"
        with Inr have "a = []" by (simp add: split_ws_Nil)
        with False show False by simp
      qed
      then have "f \<noteq> []" by (simp add: readline_Nil_iff)
      then have rl: "readlines f = ?line # readlines (snd (readline f))"
        by (rule readlines_Cons)
      from Suc [of "snd (readline f)" "pairs @ [(a ! 0 - 1, a ! 1 - 1)]"] False Inr
      show ?thesis
        by (auto simp: rl)
    qed
  qed
qed

lemma read_name_pairs_result:
  "length pairs \<le> 50 \<Longrightarrow>
   (\<exists>r. read_name_pairs suffix fns f pairs = Inr r \<and> length r = 50
        \<and> 50 - length pairs
            \<le> length (filter (\<lambda>l. 2 \<le> length (split_on CHR '' '' l)
                  \<and> basename (split_on CHR '' '' l ! 0 @ suffix) \<in> set fns
                  \<and> basename (split_on CHR '' '' l ! 1 @ suffix) \<in> set fns) (readlines f)))
   \<or> read_name_pairs suffix fns f pairs = Inl IndexError"
proof (induction suffix fns f pairs rule: read_name_pairs.induct)
  case (1 suffix fns f pairs)
  let ?line = "fst (readline f)"
  let ?cs = "split_on CHR '' '' ?line"
  let ?ok = "basename (?cs ! 0 @ suffix) \<in> set fns \<and> basename (?cs ! 1 @ suffix) \<in> set fns"
  let ?pairs' = "if ?ok then pairs @ [(int (index_of fns (basename (?cs ! 0 @ suffix))),
                                       int (index_of fns (basename (?cs ! 1 @ suffix))))]
                 else pairs"
  show ?case
  proof (cases "length pairs < 50")
    case False
    with "1.prems" show ?thesis
      by (subst (1 2) read_name_pairs.simps) simp
  next
    case lt: True
    show ?thesis
    proof (cases "length ?cs < 2")
      case True
      with lt show ?thesis
        by (subst (1 2) read_name_pairs.simps) (simp add: Let_def)
    next
      case False
      then have "?line \<noteq> []" by auto
      then have "f \<noteq> []" by (simp add: readline_Nil_iff)
      then have rl: "readlines f = ?line # readlines (snd (readline f))"
        by (rule readlines_Cons)
      have step: "read_name_pairs suffix fns f pairs
                  = read_name_pairs suffix fns (snd (readline f)) ?pairs'"
        using lt False by (subst read_name_pairs.simps) (simp add: Let_def)
      have len': "length ?pairs' \<le> 50" using lt by simp
      note IH = "1.IH" [OF lt refl False refl refl len']
      from IH show ?thesis
        unfolding step rl using False lt by (auto simp: Let_def)
    qed
  qed
qed

lemma get_predefined_pairs_result:
  "(\<exists>r. get_predefined_pairs m f site order myimages = Inr r \<and> length r = 50
        \<and> 50 \<le> length (filter (valid_pair_line m site order myimages) (readlines f)))
   \<or> get_predefined_pairs m f site order myimages = Inl IndexError
   \<or> (order \<in> set [''oracle'', ''sift'']
        \<and> get_predefined_pairs m f site order myimages = Inl ValueError)"
proof (cases "order \<in> set [''oracle'', ''sift'']")
  case True
  then have v: "valid_pair_line m site order myimages
      = (\<lambda>l. case ints_of_tokens m (filter isdigit (split_ws l)) of
                 Inl e \<Rightarrow> False | Inr a \<Rightarrow> 2 \<le> length a)"
    by (auto simp: valid_pair_line_def fun_eq_iff)
  from True have g: "get_predefined_pairs m f site order myimages = read_index_pairs m 50 f []"
    by (simp add: get_predefined_pairs_def)
  show ?thesis
    unfolding g v using read_index_pairs_result [of m 50 f "[]"] True by simp
next
  case False
  let ?suffix = "if site = ''IARPA'' then [] else ''.tif''"
  from False have v: "valid_pair_line m site order myimages
      = (\<lambda>l. 2 \<le> length (split_on CHR '' '' l)
                  \<and> basename (split_on CHR '' '' l ! 0 @ ?suffix) \<in> set (map basename myimages)
                  \<and> basename (split_on CHR '' '' l ! 1 @ ?suffix) \<in> set (map basename myimages))"
    by (simp add: valid_pair_line_def fun_eq_iff Let_def)
  from False have g: "get_predefined_pairs m f site order myimages
      = read_name_pairs ?suffix (map basename myimages) f []"
    by (simp add: get_predefined_pairs_def Let_def)
  show ?thesis
    unfolding g v using read_name_pairs_result [of "[]" ?suffix "map basename myimages" f] False
    by simp
qed

lemma pairs_file_3_valid:
  "length (filter (valid_pair_line 4300 [] ''oracle'' []) (readlines pairs_file_3)) = 3"
  by code_simp

lemma pairs_file_3_run: "get_predefined_pairs 4300 pairs_file_3 [] ''oracle'' [] = Inl IndexError"
  by code_simp

lemma names_file_3_valid:
  "length (filter (valid_pair_line 4300 ''IARPA'' ''heuristic''
                     [''/data/a.tif'', ''/data/b.tif'', ''/data/c.tif''])
             (readlines names_file_3)) = 3"
  by code_simp

lemma names_file_3_run:
  "get_predefined_pairs 4300 names_file_3 ''IARPA'' ''heuristic''
       [''/data/a.tif'', ''/data/b.tif'', ''/data/c.tif'']
     = Inl IndexError"
  by code_simp

lemma pairs_file_50_run:
  "get_predefined_pairs 4300 pairs_file_50 [] ''sift'' [] = Inr (replicate 50 (0, 1))"
  by code_simp

lemma superscript_file_valid:
  "length (filter (valid_pair_line 4300 [] ''oracle'' []) (readlines superscript_file)) = 0"
  by code_simp

lemma superscript_file_run:
  "get_predefined_pairs 4300 superscript_file [] ''oracle'' [] = Inl ValueError"
  by code_simp

text \<open>
  Claim C3, amended. For every pair file with fewer than 50 valid pair lines and every
  mode, \<^verbatim>\<open>get_predefined_pairs\<close> does not return a partial list but raises an error:
  IndexError, as when the file is exhausted, or, in the modes \<open>oracle\<close> and \<open>sift\<close>,
  ValueError at a token of digits that \<^verbatim>\<open>int\<close> rejects. Whenever the function returns, it
  returns exactly 50 pairs.
\<close>

theorem short_pair_file_raises:
  "(length (filter (valid_pair_line m site order myimages) (readlines f)) < 50
      \<longrightarrow> get_predefined_pairs m f site order myimages = Inl IndexError
          \<or> (order \<in> set [''oracle'', ''sift'']
              \<and> get_predefined_pairs m f site order myimages = Inl ValueError))
   \<and> (\<forall>pairs. get_predefined_pairs m f site order myimages = Inr pairs \<longrightarrow> length pairs = 50)"
  using get_predefined_pairs_result [of m f site order myimages] by auto

theorem short_pair_file_raises_witness:
  "length (filter (valid_pair_line 4300 [] ''oracle'' []) (readlines pairs_file_3)) < 50
   \<and> get_predefined_pairs 4300 pairs_file_3 [] ''oracle'' [] = Inl IndexError
   \<and> length (filter (valid_pair_line 4300 [] ''oracle'' []) (readlines superscript_file)) < 50
   \<and> get_predefined_pairs 4300 superscript_file [] ''oracle'' [] = Inl ValueError
   \<and> get_predefined_pairs 4300 pairs_file_50 [] ''sift'' [] = Inr (replicate 50 (0, 1))
   \<and> length (replicate 50 ((0::int), (1::int))) = 50"
proof -
  have h: "length (filter (valid_pair_line 4300 [] ''oracle'' []) (readlines pairs_file_3)) < 50"
    by (simp add: pairs_file_3_valid)
  have h': "length (filter (valid_pair_line 4300 [] ''oracle'' []) (readlines superscript_file)) < 50"
    by (simp add: superscript_file_valid)
  from short_pair_file_raises [of 4300 "[]" "''oracle''" "[]" pairs_file_3] h
  have "get_predefined_pairs 4300 pairs_file_3 [] ''oracle'' [] = Inl IndexError
        \<or> get_predefined_pairs 4300 pairs_file_3 [] ''oracle'' [] = Inl ValueError"
    by blast
  then have e: "get_predefined_pairs 4300 pairs_file_3 [] ''oracle'' [] = Inl IndexError"
    by (simp add: pairs_file_3_run)
  from short_pair_file_raises [of 4300 "[]" "''sift''" "[]" pairs_file_50] pairs_file_50_run
  have l: "length (replicate 50 ((0::int), (1::int))) = 50"
    by blast
  from h e h' superscript_file_run pairs_file_50_run l show ?thesis
    by (intro conjI)
qed

text \<open>
  Claim C3 as stated fails: a file with three valid pair lines does not give three pairs.
  In the mode \<open>oracle\<close> the fourth \<^verbatim>\<open>readline\<close> returns the empty string and \<^verbatim>\<open>a[0]\<close> raises
  IndexError; in the other modes \<^verbatim>\<open>current_str[1]\<close> raises it.
\<close>

theorem partial_pair_file_counterexample:
  "length (filter (valid_pair_line 4300 [] ''oracle'' []) (readlines pairs_file_3)) = 3
   \<and> get_predefined_pairs 4300 pairs_file_3 [] ''oracle'' [] = Inl IndexError
   \<and> length (filter (valid_pair_line 4300 ''IARPA'' ''heuristic''
                        [''/data/a.tif'', ''/data/b.tif'', ''/data/c.tif''])
             (readlines names_file_3)) = 3
   \<and> get_predefined_pairs 4300 names_file_3 ''IARPA'' ''heuristic''
         [''/data/a.tif'', ''/data/b.tif'', ''/data/c.tif'']
       = Inl IndexError"
  by (intro conjI pairs_file_3_valid pairs_file_3_run names_file_3_valid names_file_3_run)


subsection \<open>The point cloud\<close>

lemma fill_rows_fold:
  "fill_rows content is pc =
     (if list_all (\<lambda>i. 3 \<le> length (findall (content ! (i + 7)))) is
      then Inr (fold (\<lambda>i pc. pc[i := parse_point (content ! (i + 7))]) is pc)
      else Inl IndexError)"
  by (induction "is" arbitrary: pc) (auto simp: Let_def parse_point_def)

lemma length_fold_update: "length (fold (\<lambda>i pc. pc[i := g i]) is pc) = length pc"
  by (induction "is" arbitrary: pc) simp_all

lemma nth_fold_update:
  "j < length pc \<Longrightarrow>
   fold (\<lambda>i pc. pc[i := g i]) is pc ! j = (if j \<in> set is then g j else pc ! j)"
proof (induction "is" arbitrary: pc rule: rev_induct)
  case Nil
  show ?case by simp
next
  case (snoc x xs)
  let ?pc = "fold (\<lambda>i pc. pc[i := g i]) xs pc"
  have len: "j < length ?pc"
    using snoc.prems by (simp add: length_fold_update)
  have "fold (\<lambda>i pc. pc[i := g i]) (xs @ [x]) pc ! j = (?pc[x := g x]) ! j"
    by simp
  also have "\<dots> = (if j = x then g j else ?pc ! j)"
    using len by (auto simp: nth_list_update)
  also have "\<dots> = (if j \<in> set (xs @ [x]) then g j else pc ! j)"
    using snoc.IH [OF snoc.prems] by auto
  finally show ?case .
qed

lemma fold_update_all:
  "length pc = n \<Longrightarrow> fold (\<lambda>i pc. pc[i := g i]) [0 ..< n] pc = map g [0 ..< n]"
  by (rule nth_equalityI) (simp_all add: length_fold_update nth_fold_update)

lemma map_shifted_nth: "map (\<lambda>i. h (xs ! (i + k))) [0 ..< length xs - k] = map h (drop k xs)"
  by (rule nth_equalityI) (simp_all add: add.commute)

lemma read_point_cloud_ply_eq:
  "read_point_cloud_ply f =
     (let content = map strip (readlines f) in
      if length content < 7 then Inl ValueError
      else if list_all (\<lambda>l. 3 \<le> length (findall l)) (drop 7 content)
      then Inr (map parse_point (drop 7 content))
      else Inl IndexError)"
proof -
  let ?content = "map strip (readlines f)"
  let ?n = "length ?content - 7"
  show ?thesis
  proof (cases "length ?content < 7")
    case True
    then show ?thesis
      by (simp add: read_point_cloud_ply_def Let_def)
  next
    case False
    then have n: "nat (int (length ?content) - 7) = ?n" by simp
    have all: "list_all (\<lambda>i. 3 \<le> length (findall (?content ! (i + 7)))) [0 ..< ?n]
               \<longleftrightarrow> list_all (\<lambda>l. 3 \<le> length (findall l)) (drop 7 ?content)"
      using False by (auto simp: list_all_length add.commute)
    have pts: "fold (\<lambda>i pc. pc[i := parse_point (?content ! (i + 7))]) [0 ..< ?n] (replicate ?n (0, 0, 0))
               = map parse_point (drop 7 ?content)"
      using fold_update_all [of "replicate ?n (0, 0, 0)" ?n "\<lambda>i. parse_point (?content ! (i + 7))"]
        map_shifted_nth [of parse_point ?content 7]
      by simp
    have n': "nat (int (length (readlines f)) - 7) = length (readlines f) - 7" by simp
    have "read_point_cloud_ply f
          = fill_rows ?content [0 ..< ?n] (replicate ?n (0, 0, 0))"
      using False by (simp add: read_point_cloud_ply_def Let_def n' del: fill_rows.simps)
    also have "\<dots> = (if list_all (\<lambda>l. 3 \<le> length (findall l)) (drop 7 ?content)
                        then Inr (map parse_point (drop 7 ?content)) else Inl IndexError)"
      unfolding fill_rows_fold all pts ..
    finally show ?thesis
      using False by (simp add: Let_def)
  qed
qed

text \<open>
  Claim C9, amended. \<^verbatim>\<open>read_point_cloud_ply\<close> does not inspect the header: it skips the
  first seven lines whatever they hold and takes a point from every further line. It
  raises ValueError when the file has fewer than seven lines and IndexError when a line
  after the seventh holds fewer than three numbers; otherwise it returns one point for
  each line after the seventh.
\<close>

theorem read_point_cloud_ply_skips_seven_lines:
  "read_point_cloud_ply f =
     (let content = map strip (readlines f) in
      if length content < 7 then Inl ValueError
      else if list_all (\<lambda>l. 3 \<le> length (findall l)) (drop 7 content)
      then Inr (map parse_point (drop 7 content))
      else Inl IndexError)"
  by (rule read_point_cloud_ply_eq)

lemma ply_good_content:
  "map strip (readlines ply_good) =
     [''ply'', ''format ascii 1.0'', ''element vertex 3'', ''property float x'',
      ''property float y'', ''property float z'', ''end_header'',
      ''1.0 2.0 3.0'', ''4.0 5.0 6.0'', ''7.5 8.25 -9.0'']"
  by code_simp

lemma ply_good_rows:
  "list_all (\<lambda>l. 3 \<le> length (findall l)) [''1.0 2.0 3.0'', ''4.0 5.0 6.0'', ''7.5 8.25 -9.0'']"
  by code_simp

lemma ply_good_points:
  "map parse_point [''1.0 2.0 3.0'', ''4.0 5.0 6.0'', ''7.5 8.25 -9.0'']
     = [(1, 2, 3), (4, 5, 6), (7.5, 8.25, -9)]"
  by code_simp

theorem read_point_cloud_ply_skips_seven_lines_witness:
  "read_point_cloud_ply ply_good = Inr [(1, 2, 3), (4, 5, 6), (7.5, 8.25, -9)]"
  using read_point_cloud_ply_skips_seven_lines [of ply_good] ply_good_rows ply_good_points
  by (simp add: ply_good_content)

text \<open>
  Claim C9 as stated fails: under a header of six lines the function raises nothing; it
  takes the first point for the seventh header line and returns two of the three points.
\<close>

lemma ply_short_header_lines: "length (readlines ply_short_header) = 6 + 3"
  by code_simp

lemma ply_short_header_run:
  "read_point_cloud_ply ply_short_header = Inr [(4, 5, 6), (7.5, 8.25, -9)]"
  by code_simp

theorem header_not_checked_counterexample:
  "length (readlines ply_short_header) = 6 + 3
   \<and> read_point_cloud_ply ply_short_header = Inr [(4, 5, 6), (7.5, 8.25, -9)]"
  by (intro conjI ply_short_header_lines ply_short_header_run)

end
